theory Spec2Isabelle
  imports Main "HOL-Library.AList" "HOL-Library.Word"
begin

unbundle bit_operations_syntax

section \<open>SecurityUtils (src/lib/security.ts)\<close>

subsection \<open>Timestamp freshness\<close>

text \<open>
  \<^verbatim>\<open>new Date(timestamp).getTime()\<close> is the engine's date parser: it yields the number of
  milliseconds since the epoch, or \<^verbatim>\<open>NaN\<close> for a string that is not a date. The parser is
  a parameter \<open>dateParse\<close>; \<open>None\<close> stands for \<^verbatim>\<open>NaN\<close>. \<^verbatim>\<open>Date.now()\<close> is the
  parameter \<open>currentTime\<close>. With \<^verbatim>\<open>NaN\<close> both comparisons of the source are false, and
  nothing in the body throws, so the \<^verbatim>\<open>catch\<close> branch is never taken.
\<close>

definition isValidTimestamp :: "(string \<Rightarrow> int option) \<Rightarrow> int \<Rightarrow> string \<Rightarrow> int \<Rightarrow> bool" where
  "isValidTimestamp dateParse currentTime timestamp maxAgeMs =
     (case dateParse timestamp of
        None \<Rightarrow> False
      | Some messageTime \<Rightarrow>
          (let age = currentTime - messageTime in age \<ge> 0 \<and> age \<le> maxAgeMs))"

text \<open>The default argument \<^verbatim>\<open>maxAgeMs = 300000\<close>.\<close>

definition isValidTimestampDefault :: "(string \<Rightarrow> int option) \<Rightarrow> int \<Rightarrow> string \<Rightarrow> bool" where
  "isValidTimestampDefault dateParse currentTime timestamp =
     isValidTimestamp dateParse currentTime timestamp 300000"

subsection \<open>Address syntax\<close>

text \<open>
  \<^verbatim>\<open>validateEmail\<close> tests the address against a regular expression and three further
  conditions. Neither character class of the expression contains \<^verbatim>\<open>@\<close>, and no label
  class contains a dot, so a string matches exactly when the part before its first
  \<^verbatim>\<open>@\<close> is a non-empty run of local characters and the part after it splits at the dots
  into at least two labels, each of 1 to 63 letters, digits and hyphens that starts and
  ends with a letter or digit.
\<close>

definition alnumChars :: string where
  "alnumChars = ''abcdefghijklmnopqrstuvwxyzABCDEFGHIJKLMNOPQRSTUVWXYZ0123456789''"

definition localChars :: string where
  "localChars = alnumChars @ [CHR ''.'', CHR ''!'', CHR ''#'', CHR ''$'', CHR ''%'', CHR ''&'',
     CHR 0x27, CHR ''*'', CHR ''+'', CHR ''/'', CHR ''='', CHR ''?'', CHR ''^'', CHR ''_'',
     CHR 0x60, CHR ''{'', CHR ''|'', CHR ''}'', CHR ''~'', CHR ''-'']"

fun splitOn :: "char \<Rightarrow> string \<Rightarrow> string list" where
  "splitOn sep [] = [[]]"
| "splitOn sep (c # cs) =
     (if c = sep then [] # splitOn sep cs
      else (case splitOn sep cs of
              [] \<Rightarrow> [[c]]
            | w # ws \<Rightarrow> (c # w) # ws))"

definition validLabel :: "string \<Rightarrow> bool" where
  "validLabel l =
     (l \<noteq> [] \<and> length l \<le> 63 \<and> hd l \<in> set alnumChars \<and> last l \<in> set alnumChars \<and>
      (\<forall>c \<in> set l. c \<in> set alnumChars \<or> c = CHR ''-''))"

definition emailRegexTest :: "string \<Rightarrow> bool" where
  "emailRegexTest email =
     (let localPart = takeWhile (\<lambda>c. c \<noteq> CHR ''@'') email;
          rest = dropWhile (\<lambda>c. c \<noteq> CHR ''@'') email
      in localPart \<noteq> [] \<and> (\<forall>c \<in> set localPart. c \<in> set localChars) \<and>
         (case rest of
            [] \<Rightarrow> False
          | _ # domain \<Rightarrow>
              (let labels = splitOn (CHR ''.'') domain
               in length labels \<ge> 2 \<and> (\<forall>l \<in> set labels. validLabel l))))"

fun includesDotDot :: "string \<Rightarrow> bool" where
  "includesDotDot (a # b # cs) = ((a = CHR ''.'' \<and> b = CHR ''.'') \<or> includesDotDot (b # cs))"
| "includesDotDot _ = False"

definition validateEmail :: "string \<Rightarrow> bool" where
  "validateEmail email =
     (emailRegexTest email \<and> length email \<le> 320 \<and> length email \<ge> 5 \<and> \<not> includesDotDot email)"

section \<open>LuminaWebProtocol (src/lib/protocol.ts)\<close>

record LWPMessage =
  version :: string
  mtype :: string
  mfrom :: string
  mto :: string
  timestamp :: string
  nonce :: string
  signature :: string
  payload :: string

definition VERSION :: string where
  "VERSION = ''1.0''"

definition MAX_MESSAGE_SIZE :: nat where
  "MAX_MESSAGE_SIZE = 10 * 1024 * 1024"

text \<open>
  \<^verbatim>\<open>SecureCrypto.verify\<close> wraps the platform's RSA-SHA256 verification in a
  \<^verbatim>\<open>try/catch\<close> that turns every exception into \<open>False\<close>. The platform primitive is the
  parameter \<open>rsaVerify\<close>, with \<open>None\<close> for an exception.
\<close>

definition verify :: "(string \<Rightarrow> string \<Rightarrow> string \<Rightarrow> bool option) \<Rightarrow> string \<Rightarrow> string \<Rightarrow> string \<Rightarrow> bool" where
  "verify rsaVerify data sig publicKey =
     (case rsaVerify data sig publicKey of None \<Rightarrow> False | Some b \<Rightarrow> b)"

record validation =
  isValid :: bool
  errors :: "string list"

text \<open>
  \<^verbatim>\<open>validateMessage(message, publicKey)\<close>: every check appends its error; the result is
  valid when no error was collected. The function has two parameters, the message and
  the public key; it reads no set of nonces and writes none.
\<close>

definition validateMessage ::
  "(string \<Rightarrow> string \<Rightarrow> string \<Rightarrow> bool option) \<Rightarrow> (string \<Rightarrow> int option) \<Rightarrow> int \<Rightarrow>
   LWPMessage \<Rightarrow> string \<Rightarrow> validation" where
  "validateMessage rsaVerify dateParse currentTime message publicKey =
     (let errors0 = [];
          errors1 = (if version message \<noteq> VERSION
                     then errors0 @ [''Invalid protocol version''] else errors0);
          errors2 = (if mtype message \<notin> set [''auth'', ''handshake'', ''message'', ''ack'', ''presence'']
                     then errors1 @ [''Invalid message type''] else errors1);
          errors3 = (if \<not> validateEmail (mfrom message)
                     then errors2 @ [''Invalid sender email''] else errors2);
          errors4 = (if \<not> validateEmail (mto message)
                     then errors3 @ [''Invalid recipient email''] else errors3);
          errors5 = (if \<not> isValidTimestampDefault dateParse currentTime (timestamp message)
                     then errors4 @ [''Invalid or expired timestamp''] else errors4);
          errors6 = (if nonce message = [] \<or> length (nonce message) \<noteq> 64
                     then errors5 @ [''Invalid nonce''] else errors5);
          errors7 = (if length (payload message) > MAX_MESSAGE_SIZE
                     then errors6 @ [''Message payload too large''] else errors6);
          signatureData = version message @ mtype message @ mfrom message @ mto message @
                          timestamp message @ nonce message @ payload message;
          errors8 = (if \<not> verify rsaVerify signatureData (signature message) publicKey
                     then errors7 @ [''Invalid message signature''] else errors7)
      in \<lparr>isValid = (length errors8 = 0), errors = errors8\<rparr>)"

text \<open>
  \<^verbatim>\<open>isReplayAttack(nonce, usedNonces)\<close> mutates the set it is given; the model returns
  the answer together with the set after the call.
\<close>

definition isReplayAttack :: "string \<Rightarrow> string set \<Rightarrow> bool \<times> string set" where
  "isReplayAttack n usedNonces =
     (if n \<in> usedNonces then (True, usedNonces)
      else (False, insert n usedNonces))"

section \<open>SecureStorage (src/lib/storage.ts): sessions and consumed nonces\<close>

record EncryptedData =
  iv :: string
  edata :: string
  tag :: string

record StoredUser =
  u_id :: string
  u_email :: string
  passwordHash :: string
  u_publicKey :: string
  encryptedPrivateKey :: EncryptedData
  u_createdAt :: string
  lastSeen :: string
  isOnline :: bool
  emailVerified :: bool

record AuthSession =
  s_userId :: string
  s_email :: string
  s_publicKey :: string
  sessionId :: string
  createdAt :: int
  expiresAt :: int

text \<open>
  A JavaScript \<^verbatim>\<open>Map\<close> keeps its entries in insertion order: \<^verbatim>\<open>set\<close> on a present key
  replaces the value in place, on a new key appends (\<open>AList.update\<close>); \<^verbatim>\<open>delete\<close>
  removes the entry (\<open>AList.delete\<close>); \<^verbatim>\<open>get\<close> is \<open>map_of\<close>.
\<close>

type_synonym users = "(string \<times> StoredUser) list"
type_synonym sessions = "(string \<times> AuthSession) list"

fun getUserByEmail :: "users \<Rightarrow> string \<Rightarrow> StoredUser option" where
  "getUserByEmail [] e = None"
| "getUserByEmail ((k, user) # rest) e =
     (if u_email user = e then Some user else getUserByEmail rest e)"

text \<open>\<^verbatim>\<open>updateUserPresence\<close>; \<open>nowIso\<close> is \<^verbatim>\<open>new Date().toISOString()\<close>.\<close>

definition updateUserPresence :: "string \<Rightarrow> string \<Rightarrow> bool \<Rightarrow> users \<Rightarrow> bool \<times> users" where
  "updateUserPresence nowIso uid online us =
     (case map_of us uid of
        None \<Rightarrow> (False, us)
      | Some user \<Rightarrow> (True, AList.update uid (user\<lparr>isOnline := online, lastSeen := nowIso\<rparr>) us))"

text \<open>\<^verbatim>\<open>storeSession\<close> spreads the session data and overwrites \<^verbatim>\<open>createdAt\<close> with the clock.\<close>

definition storeSession :: "int \<Rightarrow> string \<Rightarrow> AuthSession \<Rightarrow> sessions \<Rightarrow> sessions" where
  "storeSession now sid sessionData ss = AList.update sid (sessionData\<lparr>createdAt := now\<rparr>) ss"

definition getSession :: "sessions \<Rightarrow> string \<Rightarrow> AuthSession option" where
  "getSession ss sid = map_of ss sid"

definition deleteSession :: "string \<Rightarrow> sessions \<Rightarrow> bool \<times> sessions" where
  "deleteSession sid ss = (map_of ss sid \<noteq> None, AList.delete sid ss)"

text \<open>
  \<^verbatim>\<open>cleanup\<close> walks the entries of the session map and deletes, while walking, each entry
  whose \<^verbatim>\<open>createdAt\<close> is before \<^verbatim>\<open>Date.now() - 60 * 60 * 1000\<close>.
\<close>

definition cleanupStep :: "int \<Rightarrow> string \<times> AuthSession \<Rightarrow> sessions \<Rightarrow> sessions" where
  "cleanupStep oneHourAgo entry ss =
     (case entry of (sid, session) \<Rightarrow>
        if createdAt session < oneHourAgo then snd (deleteSession sid ss) else ss)"

definition cleanup :: "int \<Rightarrow> sessions \<Rightarrow> sessions" where
  "cleanup now ss = (let oneHourAgo = now - 60 * 60 * 1000 in fold (cleanupStep oneHourAgo) ss ss)"






section \<open>AuthService (src/lib/auth.ts)\<close>

record JWTPayload =
  p_userId :: string
  p_email :: string
  iat :: int
  p_exp :: int
  jti :: string

text \<open>
  The bearer tokens come from the \<^verbatim>\<open>jsonwebtoken\<close> package. Its tokens are modelled
  symbolically: a token is the claims it carries together with the secret that signed it,
  or a string that is no token at all. \<^verbatim>\<open>jwt.sign\<close> stamps \<^verbatim>\<open>iat\<close> with the clock in
  seconds and \<^verbatim>\<open>exp\<close> with \<^verbatim>\<open>iat\<close> plus the lifetime; \<^verbatim>\<open>jwt.verify\<close> throws on a token
  that is malformed or signed with another secret, and on one whose \<^verbatim>\<open>exp\<close> the clock (in
  seconds) has reached.
\<close>

datatype token = Signed JWTPayload string | Malformed string

datatype jwtError = JsonWebTokenError | TokenExpiredError

definition jwt_sign :: "string \<Rightarrow> string \<Rightarrow> string \<Rightarrow> string \<Rightarrow> int \<Rightarrow> int \<Rightarrow> token" where
  "jwt_sign uid em j secret expiresIn now =
     Signed \<lparr>p_userId = uid, p_email = em, iat = now div 1000,
             p_exp = now div 1000 + expiresIn, jti = j\<rparr> secret"

definition jwt_verify :: "token \<Rightarrow> string \<Rightarrow> int \<Rightarrow> jwtError + JWTPayload" where
  "jwt_verify t secret now =
     (case t of
        Malformed _ \<Rightarrow> Inl JsonWebTokenError
      | Signed p k \<Rightarrow>
          if k \<noteq> secret then Inl JsonWebTokenError
          else if now div 1000 \<ge> p_exp p then Inl TokenExpiredError
          else Inr p)"

record tokens =
  t_accessToken :: token
  t_refreshToken :: token

text \<open>
  \<^verbatim>\<open>generateTokens\<close>: \<open>newJti\<close> is the value \<^verbatim>\<open>generateSecureToken()\<close> draws;
  \<^verbatim>\<open>'15m'\<close> is 900 seconds and \<^verbatim>\<open>'7d'\<close> is 604800 seconds.
\<close>

definition ACCESS_TOKEN_EXPIRY :: int where
  "ACCESS_TOKEN_EXPIRY = 15 * 60"

definition REFRESH_TOKEN_EXPIRY :: int where
  "REFRESH_TOKEN_EXPIRY = 7 * 24 * 60 * 60"

definition generateTokens :: "string \<Rightarrow> int \<Rightarrow> string \<Rightarrow> string \<Rightarrow> string \<Rightarrow> tokens \<times> string" where
  "generateTokens secret now newJti uid em =
     (\<lparr>t_accessToken = jwt_sign uid em newJti secret ACCESS_TOKEN_EXPIRY now,
       t_refreshToken = jwt_sign uid em newJti secret REFRESH_TOKEN_EXPIRY now\<rparr>, newJti)"

record userInfo =
  i_id :: string
  i_email :: string
  i_publicKey :: string
  i_lastSeen :: string

record loginResult =
  l_success :: bool
  l_message :: string
  l_user :: "userInfo option"
  l_tokens :: "tokens option"
  l_encryptedPrivateKey :: "string option"

text \<open>
  \<^verbatim>\<open>login\<close>. \<open>bcryptCompare\<close> is \<^verbatim>\<open>bcrypt.compare\<close>, with \<open>None\<close> for a rejected promise
  (the \<^verbatim>\<open>catch\<close> branch); \<open>stringify\<close> is \<^verbatim>\<open>JSON.stringify\<close>. The user object returned
  in the result is the stored object, which \<^verbatim>\<open>updateUserPresence\<close> has just mutated, so
  its \<^verbatim>\<open>lastSeen\<close> is the new one.
\<close>

definition login ::
  "(string \<Rightarrow> string \<Rightarrow> bool option) \<Rightarrow> (EncryptedData \<Rightarrow> string) \<Rightarrow> string \<Rightarrow> int \<Rightarrow> string \<Rightarrow> string \<Rightarrow>
   users \<times> sessions \<Rightarrow> string \<Rightarrow> string \<Rightarrow> loginResult \<times> users \<times> sessions" where
  "login bcryptCompare stringify secret now nowIso newJti st em password =
     (case st of (us, ss) \<Rightarrow>
      (case getUserByEmail us em of
         None \<Rightarrow>
           (\<lparr>l_success = False, l_message = ''Invalid credentials'', l_user = None,
             l_tokens = None, l_encryptedPrivateKey = None\<rparr>, us, ss)
       | Some user \<Rightarrow>
           (case bcryptCompare password (passwordHash user) of
              None \<Rightarrow>
                (\<lparr>l_success = False, l_message = ''Login failed'', l_user = None,
                  l_tokens = None, l_encryptedPrivateKey = None\<rparr>, us, ss)
            | Some isValidPassword \<Rightarrow>
                if \<not> isValidPassword then
                  (\<lparr>l_success = False, l_message = ''Invalid credentials'', l_user = None,
                    l_tokens = None, l_encryptedPrivateKey = None\<rparr>, us, ss)
                else
                  (let us1 = snd (updateUserPresence nowIso (u_id user) True us);
                       user1 = (case map_of us (u_id user) of
                                  None \<Rightarrow> user
                                | Some _ \<Rightarrow> user\<lparr>isOnline := True, lastSeen := nowIso\<rparr>);
                       (tks, j) = generateTokens secret now newJti (u_id user) em;
                       ss1 = storeSession now j
                               \<lparr>s_userId = u_id user, s_email = em, s_publicKey = u_publicKey user,
                                sessionId = j, createdAt = now,
                                expiresAt = now + 7 * 24 * 60 * 60 * 1000\<rparr> ss
                   in (\<lparr>l_success = True, l_message = ''Login successful'',
                        l_user = Some \<lparr>i_id = u_id user1, i_email = u_email user1,
                                       i_publicKey = u_publicKey user1, i_lastSeen = lastSeen user1\<rparr>,
                        l_tokens = Some tks,
                        l_encryptedPrivateKey = Some (stringify (encryptedPrivateKey user1))\<rparr>,
                       us1, ss1)))))"

record verifyResult =
  valid :: bool
  v_payload :: "JWTPayload option"
  v_message :: "string option"

definition verifyToken :: "string \<Rightarrow> int \<Rightarrow> sessions \<Rightarrow> token \<Rightarrow> verifyResult" where
  "verifyToken secret now ss t =
     (case jwt_verify t secret now of
        Inl _ \<Rightarrow> \<lparr>valid = False, v_payload = None, v_message = Some ''Invalid token''\<rparr>
      | Inr decoded \<Rightarrow>
          (case getSession ss (jti decoded) of
             None \<Rightarrow> \<lparr>valid = False, v_payload = None, v_message = Some ''Session expired''\<rparr>
           | Some session \<Rightarrow>
               if expiresAt session < now
               then \<lparr>valid = False, v_payload = None, v_message = Some ''Session expired''\<rparr>
               else \<lparr>valid = True, v_payload = Some decoded, v_message = None\<rparr>))"

record refreshResult =
  r_success :: bool
  r_tokens :: "tokens option"
  r_message :: "string option"

definition refreshToken :: "string \<Rightarrow> int \<Rightarrow> string \<Rightarrow> sessions \<Rightarrow> token \<Rightarrow> refreshResult \<times> sessions" where
  "refreshToken secret now newJti ss t =
     (case jwt_verify t secret now of
        Inl _ \<Rightarrow> (\<lparr>r_success = False, r_tokens = None, r_message = Some ''Token refresh failed''\<rparr>, ss)
      | Inr decoded \<Rightarrow>
          (case getSession ss (jti decoded) of
             None \<Rightarrow> (\<lparr>r_success = False, r_tokens = None, r_message = Some ''Session expired''\<rparr>, ss)
           | Some session \<Rightarrow>
               if expiresAt session < now
               then (\<lparr>r_success = False, r_tokens = None, r_message = Some ''Session expired''\<rparr>, ss)
               else
                 (let (newTokens, j) = generateTokens secret now newJti (p_userId decoded) (p_email decoded);
                      ss1 = storeSession now j
                              (session\<lparr>sessionId := j, expiresAt := now + 7 * 24 * 60 * 60 * 1000\<rparr>) ss
                  in (\<lparr>r_success = True, r_tokens = Some newTokens, r_message = None\<rparr>, ss1))))"

definition logout :: "string \<Rightarrow> sessions \<Rightarrow> bool \<times> sessions" where
  "logout sid ss = (True, snd (deleteSession sid ss))"

section \<open>SecureCrypto (src/lib/crypto.ts)\<close>

type_synonym byte = "8 word"
type_synonym bytes = "byte list"

datatype cryptoError =
    InvalidAuthenticationTag
  | TimingSafeEqualLength
  | InvalidKeyLength
  | InvalidIV
  | InvalidArgValue
  | BadDecrypt
  | InvalidPEM
  | InvalidKeyObjectType
  | IncompatibleKey
  | OperationFailed

definition KEY_SIZE :: nat where
  "KEY_SIZE = 32"

definition IV_SIZE :: nat where
  "IV_SIZE = 16"

subsection \<open>Hexadecimal strings\<close>

text \<open>
  \<^verbatim>\<open>buffer.toString('hex')\<close> writes two lower-case digits per byte.
  \<^verbatim>\<open>Buffer.from(s, 'hex')\<close> reads two digits (of either case) per byte and stops at the
  first pair that is not hexadecimal; a single trailing character is dropped.
\<close>

definition hexDigit :: "nat \<Rightarrow> char" where
  "hexDigit n = ''0123456789abcdef'' ! (n mod 16)"

definition toHex :: "bytes \<Rightarrow> string" where
  "toHex bs = concat (map (\<lambda>b. [hexDigit (unat b div 16), hexDigit (unat b mod 16)]) bs)"

definition hexValue :: "char \<Rightarrow> nat option" where
  "hexValue c =
     map_of [(CHR ''0'', 0), (CHR ''1'', 1), (CHR ''2'', 2), (CHR ''3'', 3), (CHR ''4'', 4),
             (CHR ''5'', 5), (CHR ''6'', 6), (CHR ''7'', 7), (CHR ''8'', 8), (CHR ''9'', 9),
             (CHR ''a'', 10), (CHR ''b'', 11), (CHR ''c'', 12), (CHR ''d'', 13), (CHR ''e'', 14),
             (CHR ''f'', 15), (CHR ''A'', 10), (CHR ''B'', 11), (CHR ''C'', 12), (CHR ''D'', 13),
             (CHR ''E'', 14), (CHR ''F'', 15)] c"

fun fromHex :: "string \<Rightarrow> bytes" where
  "fromHex (a # b # cs) =
     (case hexValue a of
        None \<Rightarrow> []
      | Some h \<Rightarrow>
          (case hexValue b of
             None \<Rightarrow> []
           | Some l \<Rightarrow> of_nat (16 * h + l) # fromHex cs))"
| "fromHex _ = []"

text \<open>\<^verbatim>\<open>crypto.timingSafeEqual\<close> throws when the two buffers differ in length.\<close>

definition timingSafeEqual :: "bytes \<Rightarrow> bytes \<Rightarrow> cryptoError + bool" where
  "timingSafeEqual a b = (if length a \<noteq> length b then Inl TimingSafeEqualLength else Inr (a = b))"

subsection \<open>The keyed hash\<close>

text \<open>
  \<^verbatim>\<open>crypto.createHmac('sha256', key)\<close> is the HMAC construction over SHA-256. The key,
  replaced by its hash when it is longer than the block of 64 bytes, is filled up with
  zero bytes to the block; the digest is the hash of the key block xor \<^verbatim>\<open>0x5c\<close> followed
  by the hash of the key block xor \<^verbatim>\<open>0x36\<close> followed by the text. The hash function is
  the parameter \<open>sha256\<close>. \<^verbatim>\<open>hmac.update(text)\<close> hashes the bytes of the text; the
  characters of a \<open>string\<close> are bytes.
\<close>

definition bytesOf :: "string \<Rightarrow> bytes" where
  "bytesOf text = map (\<lambda>c. of_nat (of_char c)) text"

definition HMAC_BLOCK_SIZE :: nat where
  "HMAC_BLOCK_SIZE = 64"

definition hmacKeyBlock :: "(bytes \<Rightarrow> bytes) \<Rightarrow> bytes \<Rightarrow> bytes" where
  "hmacKeyBlock sha256 key =
     (let k = (if length key > HMAC_BLOCK_SIZE then sha256 key else key)
      in k @ replicate (HMAC_BLOCK_SIZE - length k) 0)"

definition hmacSha256 :: "(bytes \<Rightarrow> bytes) \<Rightarrow> bytes \<Rightarrow> string \<Rightarrow> bytes" where
  "hmacSha256 sha256 key text =
     sha256 (map (\<lambda>b. b XOR 0x5C) (hmacKeyBlock sha256 key) @
             sha256 (map (\<lambda>b. b XOR 0x36) (hmacKeyBlock sha256 key) @ bytesOf text))"

subsection \<open>Authenticated encryption\<close>

text \<open>
  The block cipher is the platform's. It is a parameter: \<open>aesEncrypt key iv text\<close> is
  the AES-256-CBC ciphertext of the UTF-8 text (\<^verbatim>\<open>update\<close> followed by \<^verbatim>\<open>final\<close>) and
  \<open>aesDecrypt key iv ciphertext\<close> the text it deciphers to, or \<open>None\<close> when \<^verbatim>\<open>final\<close>
  throws. \<^verbatim>\<open>createCipheriv\<close> and \<^verbatim>\<open>createDecipheriv\<close> reject, for \<^verbatim>\<open>aes-256-cbc\<close>, an
  initialization vector that is not 16 bytes and then a key that is not 32 bytes.
  \<^verbatim>\<open>decipher.update(data, 'hex', 'utf8')\<close> throws on a string of odd length, and reads
  any other string as \<^verbatim>\<open>Buffer.from\<close> does. \<open>ivRandom\<close> is the value
  \<^verbatim>\<open>crypto.randomBytes(IV_SIZE)\<close> draws.
\<close>

definition createCipheriv :: "bytes \<Rightarrow> bytes \<Rightarrow> cryptoError + unit" where
  "createCipheriv key ivb =
     (if length ivb \<noteq> IV_SIZE then Inl InvalidIV
      else if length key \<noteq> KEY_SIZE then Inl InvalidKeyLength
      else Inr ())"

definition encrypt ::
  "(bytes \<Rightarrow> bytes \<Rightarrow> string \<Rightarrow> bytes) \<Rightarrow> (bytes \<Rightarrow> bytes) \<Rightarrow> bytes \<Rightarrow>
   string \<Rightarrow> bytes \<Rightarrow> cryptoError + EncryptedData" where
  "encrypt aesEncrypt sha256 ivRandom plaintext key =
     (case createCipheriv key ivRandom of
        Inl e \<Rightarrow> Inl e
      | Inr _ \<Rightarrow>
          (let encrypted = toHex (aesEncrypt key ivRandom plaintext);
               tag' = toHex (hmacSha256 sha256 key (encrypted @ toHex ivRandom))
           in Inr \<lparr>iv = toHex ivRandom, edata = encrypted, tag = tag'\<rparr>))"

definition decrypt ::
  "(bytes \<Rightarrow> bytes \<Rightarrow> bytes \<Rightarrow> string option) \<Rightarrow> (bytes \<Rightarrow> bytes) \<Rightarrow>
   EncryptedData \<Rightarrow> bytes \<Rightarrow> cryptoError + string" where
  "decrypt aesDecrypt sha256 encryptedData key =
     (let ivb = fromHex (iv encryptedData);
          expectedTag = toHex (hmacSha256 sha256 key (edata encryptedData @ iv encryptedData))
      in case timingSafeEqual (fromHex (tag encryptedData)) (fromHex expectedTag) of
           Inl e \<Rightarrow> Inl e
         | Inr same \<Rightarrow>
             if \<not> same then Inl InvalidAuthenticationTag
             else
               (case createCipheriv key ivb of
                  Inl e \<Rightarrow> Inl e
                | Inr _ \<Rightarrow>
                    if odd (length (edata encryptedData)) then Inl InvalidArgValue
                    else
                      (case aesDecrypt key ivb (fromHex (edata encryptedData)) of
                         None \<Rightarrow> Inl BadDecrypt
                       | Some decrypted \<Rightarrow> Inr decrypted)))"

subsection \<open>Key pairs and the shared secret\<close>

text \<open>
  Keys travel as PEM strings. A PEM string is modelled by what the platform reads from
  it: whether it holds a public or a private key, the key's algorithm, the named curve
  of an EC key or the group of a DH key (empty for the other algorithms), and the key
  material (a number standing for it); \<open>NotPEM\<close> is a string that does not parse.
  \<^verbatim>\<open>generateKeyPairSync('rsa', ...)\<close> makes a pair of RSA keys from the entropy it draws.
\<close>

datatype asymmetricKeyType = RSA | RSA_PSS | DSA | EC | ED25519 | ED448 | X25519 | X448 | DH

datatype keyObjectType = PublicKey | PrivateKey

datatype pem = PEM keyObjectType asymmetricKeyType string nat | NotPEM string

record KeyPair =
  publicKey :: pem
  privateKey :: pem

record KeyObject =
  ko_type :: keyObjectType
  ko_asymmetricKeyType :: asymmetricKeyType
  ko_params :: string
  ko_material :: nat

definition generateKeyPair :: "nat \<Rightarrow> KeyPair" where
  "generateKeyPair entropy =
     \<lparr>publicKey = PEM PublicKey RSA [] entropy, privateKey = PEM PrivateKey RSA [] entropy\<rparr>"

text \<open>
  \<^verbatim>\<open>crypto.createPrivateKey\<close> accepts a private key only; \<^verbatim>\<open>crypto.createPublicKey\<close> accepts
  a public key, and a private key from which it derives the public one.
\<close>

definition createPrivateKey :: "pem \<Rightarrow> cryptoError + KeyObject" where
  "createPrivateKey k =
     (case k of
        PEM PrivateKey t ps m \<Rightarrow>
          Inr \<lparr>ko_type = PrivateKey, ko_asymmetricKeyType = t, ko_params = ps, ko_material = m\<rparr>
      | _ \<Rightarrow> Inl InvalidPEM)"

definition createPublicKey :: "pem \<Rightarrow> cryptoError + KeyObject" where
  "createPublicKey k =
     (case k of
        PEM _ t ps m \<Rightarrow>
          Inr \<lparr>ko_type = PublicKey, ko_asymmetricKeyType = t, ko_params = ps, ko_material = m\<rparr>
      | NotPEM _ \<Rightarrow> Inl InvalidPEM)"

text \<open>
  \<^verbatim>\<open>crypto.diffieHellman\<close>, as the platform documents it: both keys must have the same
  \<^verbatim>\<open>asymmetricKeyType\<close>, which must be one of \<^verbatim>\<open>'dh'\<close>, \<^verbatim>\<open>'ec'\<close>, \<^verbatim>\<open>'x448'\<close> and
  \<^verbatim>\<open>'x25519'\<close>; otherwise it throws. The key agreement fails on keys of different
  curves or groups. \<open>dhCompute\<close> is the key agreement itself.
\<close>

definition dhEnabledKeyTypes :: "asymmetricKeyType list" where
  "dhEnabledKeyTypes = [DH, EC, X448, X25519]"

definition diffieHellman :: "(nat \<Rightarrow> nat \<Rightarrow> bytes) \<Rightarrow> KeyObject \<Rightarrow> KeyObject \<Rightarrow> cryptoError + bytes" where
  "diffieHellman dhCompute priv pub =
     (if ko_type priv \<noteq> PrivateKey then Inl InvalidKeyObjectType
      else if ko_asymmetricKeyType priv \<noteq> ko_asymmetricKeyType pub
              \<or> ko_asymmetricKeyType priv \<notin> set dhEnabledKeyTypes
      then Inl IncompatibleKey
      else if ko_params priv \<noteq> ko_params pub then Inl OperationFailed
      else Inr (dhCompute (ko_material priv) (ko_material pub)))"

text \<open>\<^verbatim>\<open>deriveSharedSecret\<close>; \<open>scrypt\<close> is \<^verbatim>\<open>crypto.scryptSync\<close>.\<close>

definition deriveSharedSecret ::
  "(nat \<Rightarrow> nat \<Rightarrow> bytes) \<Rightarrow> (bytes \<Rightarrow> string \<Rightarrow> nat \<Rightarrow> bytes) \<Rightarrow> pem \<Rightarrow> pem \<Rightarrow> cryptoError + bytes" where
  "deriveSharedSecret dhCompute scrypt privKey pubKey =
     (case createPrivateKey privKey of
        Inl e \<Rightarrow> Inl e
      | Inr priv \<Rightarrow>
          (case createPublicKey pubKey of
             Inl e \<Rightarrow> Inl e
           | Inr pub \<Rightarrow>
               (case diffieHellman dhCompute priv pub of
                  Inl e \<Rightarrow> Inl e
                | Inr sharedSecret \<Rightarrow> Inr (scrypt sharedSecret ''smp-protocol'' KEY_SIZE))))"

section \<open>WebSocketManager (src/pages/api/ws.ts)\<close>

datatype readyState = CONNECTING | OPEN | CLOSING | CLOSED

record ExtendedWebSocket =
  wsId :: nat
  ws_userId :: "string option"
  ws_email :: "string option"
  isAlive :: "bool option"
  readyState :: readyState

record WebSocketMessage =
  f_type :: string
  f_data :: string
  f_timestamp :: string

text \<open>
  What the manager does to a socket; the socket is named by its identity \<open>wsId\<close>, and
  \<open>Send\<close> carries the frame whose JSON text goes out.
\<close>

datatype wsAction = Ping nat | Terminate nat | Send nat WebSocketMessage

type_synonym clients = "(string \<times> ExtendedWebSocket) list"

definition sendMessage :: "ExtendedWebSocket \<Rightarrow> WebSocketMessage \<Rightarrow> wsAction list" where
  "sendMessage ws message = (if readyState ws = OPEN then [Send (wsId ws) message] else [])"

text \<open>
  \<^verbatim>\<open>notifyNewMessage\<close> takes the first registered socket whose \<^verbatim>\<open>email\<close> is the
  recipient's; \<open>nowIso\<close> is \<^verbatim>\<open>new Date().toISOString()\<close>.
\<close>

definition notifyNewMessage :: "string \<Rightarrow> clients \<Rightarrow> string \<Rightarrow> string \<Rightarrow> wsAction list" where
  "notifyNewMessage nowIso cs recipientEmail messageData =
     (case find (\<lambda>client. ws_email client = Some recipientEmail) (map snd cs) of
        None \<Rightarrow> []
      | Some recipient \<Rightarrow>
          sendMessage recipient \<lparr>f_type = ''message'', f_data = messageData, f_timestamp = nowIso\<rparr>)"

text \<open>
  One tick of the heartbeat timer walks the registry: a socket whose \<^verbatim>\<open>isAlive\<close> is not
  true is terminated and its entry deleted; any other socket has the flag set to false
  and is pinged.
\<close>

definition heartbeatStep ::
  "string \<times> ExtendedWebSocket \<Rightarrow> clients \<times> wsAction list \<Rightarrow> clients \<times> wsAction list" where
  "heartbeatStep entry st =
     (case entry of (userId, client) \<Rightarrow>
      (case st of (cs, acts) \<Rightarrow>
         if isAlive client \<noteq> Some True
         then (AList.delete userId cs, acts @ [Terminate (wsId client)])
         else (AList.update userId (client\<lparr>isAlive := Some False\<rparr>) cs, acts @ [Ping (wsId client)])))"

definition heartbeat :: "clients \<times> wsAction list \<Rightarrow> clients \<times> wsAction list" where
  "heartbeat st = fold heartbeatStep (fst st) st"

text \<open>The \<^verbatim>\<open>pong\<close> handler of a socket sets that socket's flag.\<close>

definition onPong :: "nat \<Rightarrow> clients \<Rightarrow> clients" where
  "onPong w cs = map (\<lambda>(userId, client). (userId, if wsId client = w then client\<lparr>isAlive := Some True\<rparr> else client)) cs"

text \<open>
  The events of a run in which no connection is opened or closed from outside: a timer
  tick, a pong arriving on a socket, and a call of \<^verbatim>\<open>notifyNewMessage\<close>. The
  \<^verbatim>\<open>close\<close> event that \<^verbatim>\<open>terminate\<close> raises afterwards is outside these runs: its
  handler deletes the registry entry of the socket's user, which the sweep has deleted
  already, and broadcasts an offline presence frame.
\<close>

datatype wsEvent = Heartbeat | Pong nat | Notify string string

fun wsStep :: "string \<Rightarrow> wsEvent \<Rightarrow> clients \<times> wsAction list \<Rightarrow> clients \<times> wsAction list" where
  "wsStep nowIso Heartbeat st = heartbeat st"
| "wsStep nowIso (Pong w) (cs, acts) = (onPong w cs, acts)"
| "wsStep nowIso (Notify recipientEmail messageData) (cs, acts) =
     (cs, acts @ notifyNewMessage nowIso cs recipientEmail messageData)"

definition wsRun :: "string \<Rightarrow> wsEvent list \<Rightarrow> clients \<times> wsAction list \<Rightarrow> clients \<times> wsAction list" where
  "wsRun nowIso evs st = fold (wsStep nowIso) evs st"

section \<open>Concrete inputs\<close>

text \<open>
  Inputs at which the properties below are evaluated. The stand-ins for the platform's
  primitives are the simplest functions of the right shape: a date parser that knows one
  date, a signature check that accepts the signature written out in full, a password
  comparison against a hash written out in full.
\<close>

definition exampleDateParse :: "string \<Rightarrow> int option" where
  "exampleDateParse s = (if s = ''2023-11-14T22:13:20.000Z'' then Some 1700000000000 else None)"

definition exampleRsaVerify :: "string \<Rightarrow> string \<Rightarrow> string \<Rightarrow> bool option" where
  "exampleRsaVerify d sg pk = Some (sg = ''sig('' @ pk @ '','' @ d @ '')'')"

definition exampleNonce :: string where
  "exampleNonce = replicate 64 (CHR ''a'')"

definition exampleMessage :: LWPMessage where
  "exampleMessage =
     \<lparr>version = ''1.0'', mtype = ''message'', mfrom = ''alice@example.com'', mto = ''bob@example.com'',
      timestamp = ''2023-11-14T22:13:20.000Z'', nonce = exampleNonce,
      signature = ''sig(pk,1.0messagealice@example.combob@example.com2023-11-14T22:13:20.000Z''
                    @ exampleNonce @ ''{})'',
      payload = ''{}''\<rparr>"

definition exampleSecret :: string where
  "exampleSecret = ''secure-secret-key''"

text \<open>The session \<^verbatim>\<open>login\<close> stores at time 0 under the identifier \<^verbatim>\<open>j1\<close>.\<close>

definition exampleSession :: AuthSession where
  "exampleSession =
     \<lparr>s_userId = ''u1'', s_email = ''alice@example.com'', s_publicKey = ''pk'',
      sessionId = ''j1'', createdAt = 0, expiresAt = 0 + 7 * 24 * 60 * 60 * 1000\<rparr>"

definition exampleSessions :: sessions where
  "exampleSessions = storeSession 0 ''j1'' exampleSession []"

definition exampleTokens :: tokens where
  "exampleTokens = fst (generateTokens exampleSecret 0 ''j1'' ''u1'' ''alice@example.com'')"

definition exampleCompare :: "string \<Rightarrow> string \<Rightarrow> bool option" where
  "exampleCompare password hash = Some (hash = ''hash('' @ password @ '')'')"

definition exampleUser :: StoredUser where
  "exampleUser =
     \<lparr>u_id = ''u1'', u_email = ''alice@example.com'', passwordHash = ''hash(Correct-Horse-9!)'',
      u_publicKey = ''pk'', encryptedPrivateKey = \<lparr>iv = ''00'', edata = ''00'', tag = ''00''\<rparr>,
      u_createdAt = ''2023-11-14T22:13:20.000Z'', lastSeen = ''2023-11-14T22:13:20.000Z'',
      isOnline = False, emailVerified = False\<rparr>"

definition exampleUsers :: users where
  "exampleUsers = [(''u1'', exampleUser)]"

definition exampleStringify :: "EncryptedData \<Rightarrow> string" where
  "exampleStringify e = iv e @ '':'' @ edata e @ '':'' @ tag e"


text \<open>
  Stand-ins for the cipher and the hash function: a cipher that writes each character as
  its byte, and a hash that pads or cuts its input to 32 bytes. The blob is what
  \<^verbatim>\<open>encrypt\<close> makes of the message under the example key.
\<close>

definition exampleAesEncrypt :: "bytes \<Rightarrow> bytes \<Rightarrow> string \<Rightarrow> bytes" where
  "exampleAesEncrypt key ivb text = map (\<lambda>c. of_nat (of_char c)) text"

definition exampleAesDecrypt :: "bytes \<Rightarrow> bytes \<Rightarrow> bytes \<Rightarrow> string option" where
  "exampleAesDecrypt key ivb ciphertext = Some (map (\<lambda>b. char_of (unat b)) ciphertext)"

definition exampleSha256 :: "bytes \<Rightarrow> bytes" where
  "exampleSha256 x = take 32 (x @ replicate 32 0)"

definition exampleKey :: bytes where
  "exampleKey = replicate 32 1"

definition exampleIv :: bytes where
  "exampleIv = replicate 16 7"

definition exampleBlob :: EncryptedData where
  "exampleBlob =
     \<lparr>iv = toHex exampleIv,
      edata = toHex (exampleAesEncrypt exampleKey exampleIv ''This is a secret message''),
      tag = toHex (hmacSha256 exampleSha256 exampleKey
              (toHex (exampleAesEncrypt exampleKey exampleIv ''This is a secret message'') @ toHex exampleIv))\<rparr>"

text \<open>A registry with two open connections, and a run in which only the second answers.\<close>

definition exampleAliceSocket :: ExtendedWebSocket where
  "exampleAliceSocket =
     \<lparr>wsId = 1, ws_userId = Some ''u1'', ws_email = Some ''alice@example.com'',
      isAlive = Some True, readyState = OPEN\<rparr>"

definition exampleBobSocket :: ExtendedWebSocket where
  "exampleBobSocket =
     \<lparr>wsId = 2, ws_userId = Some ''u2'', ws_email = Some ''bob@example.com'',
      isAlive = Some True, readyState = OPEN\<rparr>"

definition exampleClients :: clients where
  "exampleClients = [(''u1'', exampleAliceSocket), (''u2'', exampleBobSocket)]"

definition exampleEvents :: "wsEvent list" where
  "exampleEvents = [Heartbeat, Pong 2, Notify ''bob@example.com'' ''hello'', Heartbeat]"

section \<open>Properties\<close>

subsection \<open>Timestamp window\<close>

text \<open>
  C8. With the default window, a timestamp is accepted exactly when it parses as a date
  and its age, the current time minus the timestamp, is at least 0 and at most 300000
  milliseconds. So a future timestamp is rejected, an age above five minutes is
  rejected, and an age of exactly 300000 is accepted.
\<close>

theorem isValidTimestamp_window:
  "isValidTimestampDefault dateParse currentTime ts =
     (\<exists>t. dateParse ts = Some t \<and> 0 \<le> currentTime - t \<and> currentTime - t \<le> 300000)"
  by (simp add: isValidTimestampDefault_def isValidTimestamp_def Let_def split: option.split)

text \<open>At the edge of the window, one millisecond past it, in the future, and unparseable.\<close>

theorem isValidTimestamp_window_witness:
  "isValidTimestampDefault exampleDateParse 1700000300000 ''2023-11-14T22:13:20.000Z'' \<and>
   \<not> isValidTimestampDefault exampleDateParse 1700000300001 ''2023-11-14T22:13:20.000Z'' \<and>
   \<not> isValidTimestampDefault exampleDateParse 1699999999999 ''2023-11-14T22:13:20.000Z'' \<and>
   \<not> isValidTimestampDefault exampleDateParse 1700000000000 ''invalid-date''"
  by (simp add: isValidTimestamp_window exampleDateParse_def)

subsection \<open>Replay check\<close>

lemma example_sender_valid: "validateEmail ''alice@example.com''"
  by code_simp

lemma example_recipient_valid: "validateEmail ''bob@example.com''"
  by code_simp

lemma example_timestamp_valid:
  "isValidTimestampDefault exampleDateParse 1700000001000 ''2023-11-14T22:13:20.000Z''"
  by (simp add: isValidTimestampDefault_def isValidTimestamp_def exampleDateParse_def)

lemma exampleMessage_valid:
  "validateMessage exampleRsaVerify exampleDateParse 1700000001000 exampleMessage ''pk''
     = \<lparr>isValid = True, errors = []\<rparr>"
  by (simp add: validateMessage_def exampleMessage_def example_sender_valid example_recipient_valid
      example_timestamp_valid VERSION_def MAX_MESSAGE_SIZE_def verify_def exampleRsaVerify_def
      exampleNonce_def)

text \<open>
  C1, as stated, fails: \<^verbatim>\<open>validateMessage\<close> takes the message and the public key only.
  An envelope whose nonce has been recorded as consumed is still validated as valid.
\<close>

theorem validateMessage_accepts_consumed_nonce:
  "nonce exampleMessage \<in> snd (isReplayAttack (nonce exampleMessage) {}) \<and>
   isValid (validateMessage exampleRsaVerify exampleDateParse 1700000001000 exampleMessage ''pk'')"
  by (simp add: exampleMessage_valid isReplayAttack_def)

text \<open>
  C1, amended. The replay check is the separate function \<^verbatim>\<open>isReplayAttack\<close>: for every
  nonce and every set of consumed nonces it answers true exactly when the nonce is
  already in the set, and after the call the set is the old set with the nonce added
  (unchanged on a replay, the nonce recorded on first sight).
\<close>

theorem isReplayAttack_records_nonce:
  "isReplayAttack n usedNonces = (n \<in> usedNonces, insert n usedNonces)"
  by (auto simp: isReplayAttack_def)

subsection \<open>Consumed nonces are bounded\<close>














subsection \<open>The sweep of the session store\<close>

lemma fold_cleanupStep:
  "fold (cleanupStep t) xs m =
     filter (\<lambda>(k, s). \<not> (\<exists>s'. (k, s') \<in> set xs \<and> createdAt s' < t)) m"
proof (induction xs arbitrary: m)
  case Nil
  then show ?case by simp
next
  case (Cons x xs)
  obtain k s where x: "x = (k, s)" by (cases x)
  show ?case
  proof (cases "createdAt s < t")
    case True
    then have "cleanupStep t x m = filter (\<lambda>(k', _). k' \<noteq> k) m"
      by (auto simp: cleanupStep_def deleteSession_def x AList.delete_eq intro!: filter_cong)
    then show ?thesis using Cons.IH[of "filter (\<lambda>(k', _). k' \<noteq> k) m"] True x
      by (auto intro!: filter_cong)
  next
    case False
    then have "cleanupStep t x m = m" by (simp add: cleanupStep_def x)
    then show ?thesis using Cons.IH[of m] False x by (auto intro!: filter_cong)
  qed
qed

lemma cleanup_filter:
  assumes "distinct (map fst ss)"
  shows "cleanup now ss = filter (\<lambda>(k, s). \<not> createdAt s < now - 3600000) ss"
proof -
  have "\<And>k s. (k, s) \<in> set ss \<Longrightarrow>
          (\<exists>s'. (k, s') \<in> set ss \<and> createdAt s' < now - 3600000) = (createdAt s < now - 3600000)"
    using eq_key_imp_eq_value[OF assms] by blast
  then show ?thesis
    by (auto simp: cleanup_def Let_def fold_cleanupStep intro!: filter_cong)
qed

lemma map_of_filter_value:
  "distinct (map fst ss) \<Longrightarrow>
   map_of (filter (\<lambda>(k, s). P s) ss) k =
     (case map_of ss k of None \<Rightarrow> None | Some s \<Rightarrow> if P s then Some s else None)"
proof (induction ss)
  case Nil
  then show ?case by simp
next
  case (Cons a ss)
  obtain k' s' where a: "a = (k', s')" by (cases a)
  have nk: "map_of ss k' = None" using Cons.prems a by (simp add: map_of_eq_None_iff)
  show ?case using Cons a nk by (auto split: option.splits)
qed

text \<open>
  The session store and the tokens of the examples are what a successful \<^verbatim>\<open>login\<close> at
  time 0 leaves behind.
\<close>

lemma exampleSessions_from_login:
  "login exampleCompare exampleStringify exampleSecret 0 ''2023-11-14T22:13:20.000Z'' ''j1''
     (exampleUsers, []) ''alice@example.com'' ''Correct-Horse-9!'' =
   (\<lparr>l_success = True, l_message = ''Login successful'',
     l_user = Some \<lparr>i_id = ''u1'', i_email = ''alice@example.com'', i_publicKey = ''pk'',
                    i_lastSeen = ''2023-11-14T22:13:20.000Z''\<rparr>,
     l_tokens = Some exampleTokens,
     l_encryptedPrivateKey = Some ''00:00:00''\<rparr>,
    [(''u1'', exampleUser\<lparr>isOnline := True\<rparr>)], exampleSessions)"
  by (simp add: login_def exampleUsers_def exampleUser_def exampleCompare_def exampleStringify_def
      exampleTokens_def exampleSessions_def exampleSession_def generateTokens_def
      updateUserPresence_def storeSession_def Let_def)

text \<open>
  C3, as stated, fails: the session stored at time 0, with seven days to live, is deleted
  by a sweep one hour and one millisecond later, long before its expiry.
\<close>

theorem cleanup_deletes_unexpired_session:
  "getSession exampleSessions ''j1'' = Some exampleSession \<and>
   \<not> expiresAt exampleSession < 3600001 \<and>
   getSession (cleanup 3600001 exampleSessions) ''j1'' = None"
  by (simp add: exampleSessions_def storeSession_def getSession_def cleanup_def cleanupStep_def
      deleteSession_def exampleSession_def)

text \<open>
  C3, amended. The sweep deletes a session if and only if the session was stored more
  than one hour before the current time (its \<^verbatim>\<open>createdAt\<close> is earlier than the current
  time minus 3600000 milliseconds); every other session is retained unchanged. The
  expiry time is not consulted.
\<close>

theorem cleanup_deletes_by_age:
  assumes "distinct (map fst ss)"
  shows "getSession (cleanup now ss) sid =
     (case getSession ss sid of
        None \<Rightarrow> None
      | Some s \<Rightarrow> if createdAt s < now - 60 * 60 * 1000 then None else Some s)"
  using assms map_of_filter_value[of ss "\<lambda>s. \<not> createdAt s < now - 3600000" sid]
  by (simp add: cleanup_filter getSession_def split: option.splits)

lemma exampleSessions_distinct: "distinct (map fst exampleSessions)"
  by (simp add: exampleSessions_def storeSession_def)

lemma exampleSessions_get: "getSession exampleSessions ''j1'' = Some exampleSession"
  by (simp add: exampleSessions_def storeSession_def getSession_def exampleSession_def)

text \<open>The session of the example survives a sweep after one hour and goes one millisecond later.\<close>

theorem cleanup_deletes_by_age_witness:
  "distinct (map fst exampleSessions) \<and>
   getSession (cleanup 3600000 exampleSessions) ''j1'' = Some exampleSession \<and>
   getSession (cleanup 3600001 exampleSessions) ''j1'' = None"
  using cleanup_deletes_by_age[OF exampleSessions_distinct, of 3600000 "''j1''"]
        cleanup_deletes_by_age[OF exampleSessions_distinct, of 3600001 "''j1''"]
  by (simp add: exampleSessions_distinct exampleSessions_get) (simp add: exampleSession_def)

subsection \<open>Tokens and sessions\<close>

lemma verifyToken_valid_iff:
  "valid (verifyToken secret now ss t) =
     (\<exists>p s. jwt_verify t secret now = Inr p \<and> getSession ss (jti p) = Some s \<and> \<not> expiresAt s < now)"
  by (auto simp: verifyToken_def split: sum.splits option.splits)

lemma getSession_deleteSession: "getSession (snd (deleteSession sid ss)) sid = None"
  by (simp add: getSession_def deleteSession_def delete_conv')

text \<open>
  C6. A token is accepted only if it verifies cryptographically (signature and expiry)
  and the session named by its session identifier is in the store and not past its own
  expiry; indeed exactly then. In particular a token that verifies is rejected once its
  session has been deleted.
\<close>

theorem verifyToken_needs_live_session:
  "valid (verifyToken secret now ss t) =
     (\<exists>p s. jwt_verify t secret now = Inr p \<and> getSession ss (jti p) = Some s \<and> \<not> expiresAt s < now)
   \<and> (\<forall>p. jwt_verify t secret now = Inr p \<longrightarrow>
         \<not> valid (verifyToken secret now (snd (deleteSession (jti p) ss)) t))"
  by (auto simp: verifyToken_valid_iff getSession_deleteSession)

lemma exampleAccessToken_verifies:
  "jwt_verify (t_accessToken exampleTokens) exampleSecret 1000 =
     Inr \<lparr>p_userId = ''u1'', p_email = ''alice@example.com'', iat = 0, p_exp = 900, jti = ''j1''\<rparr>"
  by (simp add: exampleTokens_def generateTokens_def jwt_sign_def jwt_verify_def
      ACCESS_TOKEN_EXPIRY_def)

lemma exampleRefreshToken_verifies:
  "now div 1000 < 604800 \<Longrightarrow> jwt_verify (t_refreshToken exampleTokens) exampleSecret now =
     Inr \<lparr>p_userId = ''u1'', p_email = ''alice@example.com'', iat = 0, p_exp = 604800, jti = ''j1''\<rparr>"
  by (simp add: exampleTokens_def generateTokens_def jwt_sign_def jwt_verify_def
      REFRESH_TOKEN_EXPIRY_def)

text \<open>
  The access token issued with the example session is accepted one second later, and
  rejected at the same moment once the session is deleted.
\<close>

theorem verifyToken_needs_live_session_witness:
  "valid (verifyToken exampleSecret 1000 exampleSessions (t_accessToken exampleTokens)) \<and>
   jwt_verify (t_accessToken exampleTokens) exampleSecret 1000 =
     Inr \<lparr>p_userId = ''u1'', p_email = ''alice@example.com'', iat = 0, p_exp = 900, jti = ''j1''\<rparr> \<and>
   \<not> valid (verifyToken exampleSecret 1000 (snd (deleteSession ''j1'' exampleSessions))
              (t_accessToken exampleTokens))"
proof -
  note inst = verifyToken_needs_live_session
    [of exampleSecret 1000 exampleSessions "t_accessToken exampleTokens"]
  have a: "valid (verifyToken exampleSecret 1000 exampleSessions (t_accessToken exampleTokens))"
    using inst[THEN conjunct1] exampleAccessToken_verifies exampleSessions_get
    by (simp add: exampleSession_def)
  have b: "\<not> valid (verifyToken exampleSecret 1000 (snd (deleteSession ''j1'' exampleSessions))
              (t_accessToken exampleTokens))"
    using inst[THEN conjunct2] exampleAccessToken_verifies by simp
  show ?thesis using a b exampleAccessToken_verifies by simp
qed

lemma refreshToken_success_iff:
  "r_success (fst (refreshToken secret now j ss t)) =
     (\<exists>p s. jwt_verify t secret now = Inr p \<and> getSession ss (jti p) = Some s \<and> \<not> expiresAt s < now)"
  by (auto simp: refreshToken_def generateTokens_def Let_def split: sum.splits option.splits)

lemma refreshToken_keeps_old_session:
  assumes "jwt_verify t secret now = Inr p" "j1 \<noteq> jti p"
  shows "getSession (snd (refreshToken secret now j1 ss t)) (jti p) = getSession ss (jti p)"
  using assms
  by (auto simp: refreshToken_def generateTokens_def Let_def storeSession_def getSession_def update_conv'
      split: sum.splits option.splits)

lemma jwt_verify_payload:
  "jwt_verify t secret now = Inr p \<Longrightarrow> jwt_verify t secret now' = Inr p' \<Longrightarrow> p' = p"
  by (auto simp: jwt_verify_def split: token.splits if_splits)

text \<open>
  C2, as stated, fails: the refresh token issued with the example session is accepted
  at one second, and the same token is accepted again at two seconds.
\<close>

theorem refreshToken_accepts_old_token_again:
  "r_success (fst (refreshToken exampleSecret 1000 ''j2'' exampleSessions (t_refreshToken exampleTokens))) \<and>
   r_success (fst (refreshToken exampleSecret 2000 ''j3''
      (snd (refreshToken exampleSecret 1000 ''j2'' exampleSessions (t_refreshToken exampleTokens)))
      (t_refreshToken exampleTokens)))"
proof -
  have v1: "jwt_verify (t_refreshToken exampleTokens) exampleSecret 1000 =
     Inr \<lparr>p_userId = ''u1'', p_email = ''alice@example.com'', iat = 0, p_exp = 604800, jti = ''j1''\<rparr>"
    by (rule exampleRefreshToken_verifies) simp
  have v2: "jwt_verify (t_refreshToken exampleTokens) exampleSecret 2000 =
     Inr \<lparr>p_userId = ''u1'', p_email = ''alice@example.com'', iat = 0, p_exp = 604800, jti = ''j1''\<rparr>"
    by (rule exampleRefreshToken_verifies) simp
  have keep: "getSession (snd (refreshToken exampleSecret 1000 ''j2'' exampleSessions
                 (t_refreshToken exampleTokens))) ''j1'' = Some exampleSession"
    using refreshToken_keeps_old_session[OF v1, of "''j2''" exampleSessions] exampleSessions_get
    by simp
  show ?thesis
    using v1 v2 keep exampleSessions_get
    by (simp add: refreshToken_success_iff exampleSession_def)
qed

lemma refreshToken_stores_new_session:
  assumes "jwt_verify t secret now = Inr p" "getSession ss (jti p) = Some s" "\<not> expiresAt s < now"
  shows "getSession (snd (refreshToken secret now j1 ss t)) j1 =
           Some (s\<lparr>sessionId := j1, createdAt := now, expiresAt := now + 7 * 24 * 60 * 60 * 1000\<rparr>)
       \<and> r_tokens (fst (refreshToken secret now j1 ss t)) =
           Some (fst (generateTokens secret now j1 (p_userId p) (p_email p)))"
  using assms
  by (simp add: refreshToken_def generateTokens_def Let_def storeSession_def getSession_def update_conv')

text \<open>
  C2, amended. A successful \<^verbatim>\<open>refreshToken\<close> call issues a new token pair and stores the
  new session under the newly drawn session identifier, with a fresh expiry, and it
  leaves the old session record in the store unchanged. So the same refresh token is
  accepted a second time, at any time at which the token itself still verifies and the
  old session is not past its expiry.
\<close>

theorem refreshToken_old_token_reusable:
  assumes first: "r_success (fst (refreshToken secret now j1 ss t))"
    and again: "jwt_verify t secret now' = Inr p"
    and sess: "getSession ss (jti p) = Some s" "\<not> expiresAt s < now'"
    and fresh: "j1 \<noteq> jti p"
  shows "getSession (snd (refreshToken secret now j1 ss t)) j1 =
           Some (s\<lparr>sessionId := j1, createdAt := now, expiresAt := now + 7 * 24 * 60 * 60 * 1000\<rparr>)
       \<and> r_tokens (fst (refreshToken secret now j1 ss t)) =
           Some (fst (generateTokens secret now j1 (p_userId p) (p_email p)))
       \<and> getSession (snd (refreshToken secret now j1 ss t)) (jti p) = Some s
       \<and> r_success (fst (refreshToken secret now' j2 (snd (refreshToken secret now j1 ss t)) t))"
proof -
  obtain p0 s0 where p0: "jwt_verify t secret now = Inr p0"
    and s0: "getSession ss (jti p0) = Some s0" "\<not> expiresAt s0 < now"
    using first by (auto simp: refreshToken_success_iff)
  have same: "p0 = p" using jwt_verify_payload[OF again p0] by simp
  then have "s0 = s" using s0(1) sess(1) by simp
  then have new: "getSession (snd (refreshToken secret now j1 ss t)) j1 =
           Some (s\<lparr>sessionId := j1, createdAt := now, expiresAt := now + 7 * 24 * 60 * 60 * 1000\<rparr>)
       \<and> r_tokens (fst (refreshToken secret now j1 ss t)) =
           Some (fst (generateTokens secret now j1 (p_userId p) (p_email p)))"
    using refreshToken_stores_new_session[OF p0 s0, of j1] same by simp
  have keep: "getSession (snd (refreshToken secret now j1 ss t)) (jti p) = Some s"
    using refreshToken_keeps_old_session[OF p0, of j1 ss] fresh sess same by simp
  have second: "r_success (fst (refreshToken secret now' j2 (snd (refreshToken secret now j1 ss t)) t))"
    using keep again sess(2) by (auto simp: refreshToken_success_iff)
  show ?thesis using new keep second by simp
qed

text \<open>
  The refresh of the example at one second stores the session \<^verbatim>\<open>j2\<close> and keeps
  \<^verbatim>\<open>j1\<close>; a day later the old token is accepted again.
\<close>

theorem refreshToken_old_token_reusable_witness:
  "r_success (fst (refreshToken exampleSecret 1000 ''j2'' exampleSessions (t_refreshToken exampleTokens))) \<and>
   getSession (snd (refreshToken exampleSecret 1000 ''j2'' exampleSessions (t_refreshToken exampleTokens)))
      ''j2'' = Some (exampleSession\<lparr>sessionId := ''j2'', createdAt := 1000, expiresAt := 604801000\<rparr>) \<and>
   r_tokens (fst (refreshToken exampleSecret 1000 ''j2'' exampleSessions (t_refreshToken exampleTokens)))
      = Some (fst (generateTokens exampleSecret 1000 ''j2'' ''u1'' ''alice@example.com'')) \<and>
   getSession (snd (refreshToken exampleSecret 1000 ''j2'' exampleSessions (t_refreshToken exampleTokens)))
      ''j1'' = Some exampleSession \<and>
   r_success (fst (refreshToken exampleSecret 86400000 ''j3''
      (snd (refreshToken exampleSecret 1000 ''j2'' exampleSessions (t_refreshToken exampleTokens)))
      (t_refreshToken exampleTokens)))"
proof -
  have v1: "jwt_verify (t_refreshToken exampleTokens) exampleSecret 1000 =
     Inr \<lparr>p_userId = ''u1'', p_email = ''alice@example.com'', iat = 0, p_exp = 604800, jti = ''j1''\<rparr>"
    by (rule exampleRefreshToken_verifies) simp
  have v2: "jwt_verify (t_refreshToken exampleTokens) exampleSecret 86400000 =
     Inr \<lparr>p_userId = ''u1'', p_email = ''alice@example.com'', iat = 0, p_exp = 604800, jti = ''j1''\<rparr>"
    by (rule exampleRefreshToken_verifies) simp
  have first: "r_success (fst (refreshToken exampleSecret 1000 ''j2'' exampleSessions
                  (t_refreshToken exampleTokens)))"
    using v1 exampleSessions_get by (simp add: refreshToken_success_iff exampleSession_def)
  have live: "\<not> expiresAt exampleSession < 86400000" by (simp add: exampleSession_def)
  show ?thesis
    using first refreshToken_old_token_reusable[OF first v2, of exampleSession "''j3''"]
      exampleSessions_get live
    by simp
qed

subsection \<open>Failed logins look alike\<close>

text \<open>
  C7. A login with an identifier that no stored user has, and a login with a stored
  identifier and a password that does not match its hash, return the same result:
  no success, the message \<^verbatim>\<open>Invalid credentials\<close>, nothing else; neither changes the
  stores.
\<close>

theorem login_failures_indistinguishable:
  assumes "getUserByEmail us e1 = None"
    and "getUserByEmail us e2 = Some user"
    and "bcryptCompare pw2 (passwordHash user) = Some False"
  shows "login bcryptCompare stringify secret now nowIso newJti (us, ss) e1 pw1 =
           (\<lparr>l_success = False, l_message = ''Invalid credentials'', l_user = None,
             l_tokens = None, l_encryptedPrivateKey = None\<rparr>, us, ss)
       \<and> login bcryptCompare stringify secret now nowIso newJti (us, ss) e2 pw2 =
           login bcryptCompare stringify secret now nowIso newJti (us, ss) e1 pw1"
  using assms by (simp add: login_def)

lemma example_unknown_user: "getUserByEmail exampleUsers ''nobody@example.com'' = None"
  by (simp add: exampleUsers_def exampleUser_def)

lemma example_known_user: "getUserByEmail exampleUsers ''alice@example.com'' = Some exampleUser"
  by (simp add: exampleUsers_def exampleUser_def)

lemma example_wrong_password: "exampleCompare ''WrongPassword'' (passwordHash exampleUser) = Some False"
  by (simp add: exampleCompare_def exampleUser_def)

theorem login_failures_indistinguishable_witness:
  "getUserByEmail exampleUsers ''nobody@example.com'' = None \<and>
   getUserByEmail exampleUsers ''alice@example.com'' = Some exampleUser \<and>
   exampleCompare ''WrongPassword'' (passwordHash exampleUser) = Some False \<and>
   login exampleCompare exampleStringify exampleSecret 1000 ''2023-11-14T22:13:21.000Z'' ''j2''
     (exampleUsers, exampleSessions) ''alice@example.com'' ''WrongPassword'' =
   login exampleCompare exampleStringify exampleSecret 1000 ''2023-11-14T22:13:21.000Z'' ''j2''
     (exampleUsers, exampleSessions) ''nobody@example.com'' ''Correct-Horse-9!'' \<and>
   l_message (fst (login exampleCompare exampleStringify exampleSecret 1000 ''2023-11-14T22:13:21.000Z'' ''j2''
     (exampleUsers, exampleSessions) ''alice@example.com'' ''WrongPassword'')) = ''Invalid credentials'' \<and>
   l_success (fst (login exampleCompare exampleStringify exampleSecret 1000 ''2023-11-14T22:13:21.000Z'' ''j2''
     (exampleUsers, exampleSessions) ''alice@example.com'' ''Correct-Horse-9!''))"
proof -
  have ok: "l_success (fst (login exampleCompare exampleStringify exampleSecret 1000
     ''2023-11-14T22:13:21.000Z'' ''j2'' (exampleUsers, exampleSessions) ''alice@example.com''
     ''Correct-Horse-9!''))"
    by (simp add: login_def example_known_user exampleCompare_def exampleUser_def Let_def
        generateTokens_def)
  show ?thesis
    using login_failures_indistinguishable
      [where us = exampleUsers and ?e1.0 = "''nobody@example.com''"
         and ?e2.0 = "''alice@example.com''" and user = exampleUser
         and bcryptCompare = exampleCompare and ?pw2.0 = "''WrongPassword''"
         and stringify = exampleStringify and secret = exampleSecret and now = 1000
         and nowIso = "''2023-11-14T22:13:21.000Z''" and newJti = "''j2''"
         and ss = exampleSessions and ?pw1.0 = "''Correct-Horse-9!''"]
      example_unknown_user example_known_user example_wrong_password ok
    by simp
qed

subsection \<open>Authenticated encryption\<close>

lemma hexValue_hexDigit:
  assumes "m < 16"
  shows "hexValue (hexDigit m) = Some m"
proof -
  have "m = 0 \<or> m = 1 \<or> m = 2 \<or> m = 3 \<or> m = 4 \<or> m = 5 \<or> m = 6 \<or> m = 7 \<or> m = 8 \<or> m = 9 \<or>
        m = 10 \<or> m = 11 \<or> m = 12 \<or> m = 13 \<or> m = 14 \<or> m = 15"
    using assms by arith
  then show ?thesis
    by (elim disjE) (simp_all add: hexValue_def hexDigit_def)
qed

lemma byte_split: "of_nat (16 * (unat b div 16) + unat b mod 16) = (b :: byte)"
  by simp

lemma fromHex_toHex: "fromHex (toHex bs) = bs"
proof (induction bs)
  case Nil
  then show ?case by (simp add: toHex_def)
next
  case (Cons b bs)
  have "unat b < 256" using unsigned_less[of b, where 'a = nat] by simp
  then have hi: "unat b div 16 < 16" by simp
  have lo: "unat b mod 16 < 16" by simp
  have "toHex (b # bs) = hexDigit (unat b div 16) # hexDigit (unat b mod 16) # toHex bs"
    by (simp add: toHex_def)
  then show ?case
    using Cons.IH hexValue_hexDigit[OF hi] hexValue_hexDigit[OF lo] byte_split[of b]
    by simp
qed

lemma length_toHex: "length (toHex bs) = 2 * length bs"
  by (induction bs) (simp_all add: toHex_def)

lemma hmacKeyBlock_zero_byte:
  assumes "length key < 64"
  shows "hmacKeyBlock sha256 (key @ [0]) = hmacKeyBlock sha256 key"
proof -
  have "64 - length key = Suc (63 - length key)" using assms by simp
  then have "replicate (64 - length key) (0 :: byte) = 0 # replicate (63 - length key) 0"
    by simp
  then show ?thesis using assms by (simp add: hmacKeyBlock_def HMAC_BLOCK_SIZE_def)
qed

lemma hmacSha256_zero_byte:
  "length key < 64 \<Longrightarrow> hmacSha256 sha256 (key @ [0]) text = hmacSha256 sha256 key text"
  by (simp add: hmacSha256_def hmacKeyBlock_zero_byte)

lemma encrypt_ok:
  assumes "length key = 32" "length ivRandom = 16"
  shows "encrypt aesEncrypt sha256 ivRandom plaintext key =
     Inr \<lparr>iv = toHex ivRandom, edata = toHex (aesEncrypt key ivRandom plaintext),
          tag = toHex (hmacSha256 sha256 key (toHex (aesEncrypt key ivRandom plaintext) @ toHex ivRandom))\<rparr>"
  using assms by (simp add: encrypt_def createCipheriv_def KEY_SIZE_def IV_SIZE_def Let_def)

lemma decrypt_same_tag:
  assumes "hmacSha256 sha256 key' (toHex c @ toHex ivb) = t"
  shows "decrypt aesDecrypt sha256 \<lparr>iv = toHex ivb, edata = toHex c, tag = toHex t\<rparr> key' =
     (if length ivb \<noteq> 16 then Inl InvalidIV
      else if length key' \<noteq> 32 then Inl InvalidKeyLength
      else case aesDecrypt key' ivb c of None \<Rightarrow> Inl BadDecrypt | Some p \<Rightarrow> Inr p)"
  using assms
  by (simp add: decrypt_def timingSafeEqual_def createCipheriv_def KEY_SIZE_def IV_SIZE_def
      Let_def fromHex_toHex length_toHex)

lemma decrypt_other_tag:
  assumes "length (hmacSha256 sha256 key' (d @ i)) = length t" "hmacSha256 sha256 key' (d @ i) \<noteq> t"
  shows "decrypt aesDecrypt sha256 \<lparr>iv = i, edata = d, tag = toHex t\<rparr> key'
         = Inl InvalidAuthenticationTag"
  using assms
  by (auto simp: decrypt_def timingSafeEqual_def Let_def fromHex_toHex)

text \<open>
  A key followed by a zero byte gives the same tag, whatever the hash function: the tag
  check passes and the cipher refuses the key for its length.
\<close>

lemma decrypt_zero_padded_key:
  assumes "length key = 32" "length ivRandom = 16"
    and "encrypt aesEncrypt sha256 ivRandom plaintext key = Inr blob"
  shows "decrypt aesDecrypt sha256 blob (key @ [0]) = Inl InvalidKeyLength"
proof -
  have blob: "blob = \<lparr>iv = toHex ivRandom, edata = toHex (aesEncrypt key ivRandom plaintext),
          tag = toHex (hmacSha256 sha256 key (toHex (aesEncrypt key ivRandom plaintext) @ toHex ivRandom))\<rparr>"
    using assms encrypt_ok[OF assms(1,2), of aesEncrypt sha256 plaintext] by simp
  have same: "hmacSha256 sha256 (key @ [0]) (toHex (aesEncrypt key ivRandom plaintext) @ toHex ivRandom)
      = hmacSha256 sha256 key (toHex (aesEncrypt key ivRandom plaintext) @ toHex ivRandom)"
    using assms(1) by (simp add: hmacSha256_zero_byte)
  show ?thesis
    unfolding blob using decrypt_same_tag[OF same, of aesDecrypt] assms(1,2) by simp
qed

text \<open>
  C5, as stated, fails: the example key followed by one zero byte is a different key, it
  passes the tag check on the blob made with the example key (as it does with every
  hash function, by the lemma above), and \<^verbatim>\<open>decrypt\<close> fails in \<^verbatim>\<open>createDecipheriv\<close>
  with the invalid key length, not with the authentication error.
\<close>

theorem decrypt_wrong_key_not_authentication_error:
  "encrypt exampleAesEncrypt exampleSha256 exampleIv ''This is a secret message'' exampleKey = Inr exampleBlob \<and>
   exampleKey @ [0] \<noteq> exampleKey \<and>
   decrypt exampleAesDecrypt exampleSha256 exampleBlob (exampleKey @ [0]) = Inl InvalidKeyLength"
proof -
  have k: "length exampleKey = 32" by (simp add: exampleKey_def)
  have i: "length exampleIv = 16" by (simp add: exampleIv_def)
  have e: "encrypt exampleAesEncrypt exampleSha256 exampleIv ''This is a secret message'' exampleKey
             = Inr exampleBlob"
    unfolding exampleBlob_def by (rule encrypt_ok[OF k i])
  show ?thesis using e decrypt_zero_padded_key[OF k i e, of exampleAesDecrypt] by simp
qed

text \<open>
  C5, amended. Let the key have 32 bytes and the drawn initialization vector 16, let the
  platform's cipher decipher its ciphertext of the plaintext, under the same key and
  vector, to the plaintext, and let the hash give 32 bytes. Then \<^verbatim>\<open>encrypt\<close> succeeds
  and \<^verbatim>\<open>decrypt\<close> of its result under the same key returns the plaintext. Under any
  key whose keyed hash of the blob differs from the stored tag, \<^verbatim>\<open>decrypt\<close> fails with
  the authentication error: the tag check fails and the cipher is never run. Under a key
  that reproduces the tag and is not 32 bytes long, it fails with the cipher's invalid
  key length. So \<^verbatim>\<open>decrypt\<close> returns a text only under a 32-byte key that reproduces
  the tag.
\<close>

theorem encrypt_decrypt_roundtrip:
  assumes key: "length key = 32" and ivlen: "length ivRandom = 16"
    and aes: "aesDecrypt key ivRandom (aesEncrypt key ivRandom plaintext) = Some plaintext"
    and sha_len: "\<forall>x. length (sha256 x) = 32"
  shows "\<exists>blob. encrypt aesEncrypt sha256 ivRandom plaintext key = Inr blob
           \<and> decrypt aesDecrypt sha256 blob key = Inr plaintext
           \<and> (\<forall>key'. hmacSha256 sha256 key' (edata blob @ iv blob)
                         \<noteq> hmacSha256 sha256 key (edata blob @ iv blob) \<longrightarrow>
                 decrypt aesDecrypt sha256 blob key' = Inl InvalidAuthenticationTag)
           \<and> (\<forall>key'. hmacSha256 sha256 key' (edata blob @ iv blob)
                         = hmacSha256 sha256 key (edata blob @ iv blob) \<and> length key' \<noteq> 32 \<longrightarrow>
                 decrypt aesDecrypt sha256 blob key' = Inl InvalidKeyLength)
           \<and> (\<forall>key' out. decrypt aesDecrypt sha256 blob key' = Inr out \<longrightarrow>
                 length key' = 32 \<and>
                 hmacSha256 sha256 key' (edata blob @ iv blob)
                   = hmacSha256 sha256 key (edata blob @ iv blob))"
proof -
  define c where "c = aesEncrypt key ivRandom plaintext"
  define t where "t = hmacSha256 sha256 key (toHex c @ toHex ivRandom)"
  define blob where "blob = \<lparr>iv = toHex ivRandom, edata = toHex c, tag = toHex t\<rparr>"
  have sel: "edata blob @ iv blob = toHex c @ toHex ivRandom" by (simp add: blob_def)
  have enc: "encrypt aesEncrypt sha256 ivRandom plaintext key = Inr blob"
    unfolding blob_def t_def c_def using key ivlen by (rule encrypt_ok)
  have dec: "decrypt aesDecrypt sha256 blob key = Inr plaintext"
    unfolding blob_def
    using decrypt_same_tag[OF t_def[symmetric], of aesDecrypt] key ivlen aes[folded c_def]
    by simp
  have len: "length (hmacSha256 sha256 k m) = 32" for k m
    using sha_len by (simp add: hmacSha256_def)
  have differs: "decrypt aesDecrypt sha256 blob key' = Inl InvalidAuthenticationTag"
    if "hmacSha256 sha256 key' (edata blob @ iv blob) \<noteq> hmacSha256 sha256 key (edata blob @ iv blob)"
    for key'
  proof -
    have ne: "hmacSha256 sha256 key' (toHex c @ toHex ivRandom) \<noteq> t"
      using that unfolding sel t_def .
    have "length (hmacSha256 sha256 key' (toHex c @ toHex ivRandom)) = length t"
      unfolding t_def by (simp add: len)
    then show ?thesis unfolding blob_def using ne by (rule decrypt_other_tag)
  qed
  have same: "decrypt aesDecrypt sha256 blob key' = Inl InvalidKeyLength"
    if "hmacSha256 sha256 key' (edata blob @ iv blob) = hmacSha256 sha256 key (edata blob @ iv blob)
        \<and> length key' \<noteq> 32"
    for key'
  proof -
    have eq: "hmacSha256 sha256 key' (toHex c @ toHex ivRandom) = t"
      using that unfolding sel t_def by simp
    show ?thesis
      unfolding blob_def using decrypt_same_tag[OF eq, of aesDecrypt] ivlen that by simp
  qed
  have closed: "length key' = 32 \<and>
      hmacSha256 sha256 key' (edata blob @ iv blob) = hmacSha256 sha256 key (edata blob @ iv blob)"
    if "decrypt aesDecrypt sha256 blob key' = Inr out" for key' out
  proof (rule ccontr)
    assume "\<not> ?thesis"
    then have "decrypt aesDecrypt sha256 blob key' = Inl InvalidAuthenticationTag
             \<or> decrypt aesDecrypt sha256 blob key' = Inl InvalidKeyLength"
      using differs[of key'] same[of key'] by blast
    then show False using that by auto
  qed
  show ?thesis using enc dec differs same closed by blast
qed

lemma exampleAes_roundtrip:
  "exampleAesDecrypt k i (exampleAesEncrypt k i text) = Some text"
  by (simp add: exampleAesDecrypt_def exampleAesEncrypt_def unat_of_nat comp_def)

lemma exampleSha256_length: "\<forall>x. length (exampleSha256 x) = 32"
  by (simp add: exampleSha256_def min_def)

lemma exampleHmac_value:
  assumes "length k = 32"
  shows "hmacSha256 exampleSha256 k m = map (\<lambda>b. b XOR 0x5C) k"
  using assms by (simp add: hmacSha256_def exampleSha256_def hmacKeyBlock_def HMAC_BLOCK_SIZE_def)

lemma exampleHmac_differs:
  "hmacSha256 exampleSha256 (replicate 32 2) m \<noteq> hmacSha256 exampleSha256 exampleKey m"
proof -
  have "map (\<lambda>b :: byte. b XOR 0x5C) (replicate 32 2) \<noteq> map (\<lambda>b. b XOR 0x5C) exampleKey"
    by (simp add: exampleKey_def)
  then show ?thesis by (simp add: exampleHmac_value exampleKey_def)
qed

text \<open>
  The example key returns the message; another 32-byte key fails on the tag; the example
  key followed by a zero byte reproduces the tag and fails on its length.
\<close>

theorem encrypt_decrypt_roundtrip_witness:
  "encrypt exampleAesEncrypt exampleSha256 exampleIv ''This is a secret message'' exampleKey = Inr exampleBlob
     \<and> decrypt exampleAesDecrypt exampleSha256 exampleBlob exampleKey = Inr ''This is a secret message''
     \<and> decrypt exampleAesDecrypt exampleSha256 exampleBlob (replicate 32 2) = Inl InvalidAuthenticationTag
     \<and> decrypt exampleAesDecrypt exampleSha256 exampleBlob (exampleKey @ [0]) = Inl InvalidKeyLength"
proof -
  have k: "length exampleKey = 32" by (simp add: exampleKey_def)
  have i: "length exampleIv = 16" by (simp add: exampleIv_def)
  have e: "encrypt exampleAesEncrypt exampleSha256 exampleIv ''This is a secret message'' exampleKey
             = Inr exampleBlob"
    unfolding exampleBlob_def by (rule encrypt_ok[OF k i])
  have pad: "hmacSha256 exampleSha256 (exampleKey @ [0]) (edata exampleBlob @ iv exampleBlob)
               = hmacSha256 exampleSha256 exampleKey (edata exampleBlob @ iv exampleBlob)
             \<and> length (exampleKey @ [0]) \<noteq> 32"
    using k by (simp add: hmacSha256_zero_byte)
  obtain blob where b:
    "encrypt exampleAesEncrypt exampleSha256 exampleIv ''This is a secret message'' exampleKey = Inr blob"
    "decrypt exampleAesDecrypt exampleSha256 blob exampleKey = Inr ''This is a secret message''"
    "\<forall>key'. hmacSha256 exampleSha256 key' (edata blob @ iv blob)
               \<noteq> hmacSha256 exampleSha256 exampleKey (edata blob @ iv blob) \<longrightarrow>
        decrypt exampleAesDecrypt exampleSha256 blob key' = Inl InvalidAuthenticationTag"
    "\<forall>key'. hmacSha256 exampleSha256 key' (edata blob @ iv blob)
               = hmacSha256 exampleSha256 exampleKey (edata blob @ iv blob) \<and> length key' \<noteq> 32 \<longrightarrow>
        decrypt exampleAesDecrypt exampleSha256 blob key' = Inl InvalidKeyLength"
    using encrypt_decrypt_roundtrip
      [where key = exampleKey and ivRandom = exampleIv
         and aesDecrypt = exampleAesDecrypt and aesEncrypt = exampleAesEncrypt
         and plaintext = "''This is a secret message''" and ?sha256.0 = exampleSha256,
       OF k i exampleAes_roundtrip exampleSha256_length]
    by blast
  have "blob = exampleBlob" using b(1) e by simp
  then show ?thesis using b e pad exampleHmac_differs by blast
qed

subsection \<open>The shared secret\<close>

text \<open>
  C4 fails on the code. The key pairs of \<^verbatim>\<open>generateKeyPair\<close> are RSA pairs, and
  \<^verbatim>\<open>crypto.diffieHellman\<close> accepts no RSA key: for every two generated key pairs
  \<^verbatim>\<open>deriveSharedSecret\<close> throws, in either order of the parties, whatever the key
  agreement and the key stretching compute. No shared secret is ever derived.
\<close>

theorem deriveSharedSecret_fails_on_generated_keys:
  "deriveSharedSecret dhCompute scrypt (privateKey (generateKeyPair a)) (publicKey (generateKeyPair b))
     = Inl IncompatibleKey
   \<and> deriveSharedSecret dhCompute scrypt (privateKey (generateKeyPair b)) (publicKey (generateKeyPair a))
     = Inl IncompatibleKey"
  by (simp add: deriveSharedSecret_def generateKeyPair_def createPrivateKey_def createPublicKey_def
      diffieHellman_def dhEnabledKeyTypes_def)

subsection \<open>Heartbeat\<close>

lemma update_in_middle:
  "k \<notin> fst ` set pre \<Longrightarrow> AList.update k v (pre @ (k, c) # rest) = pre @ (k, v) # rest"
  by (induction pre) auto

lemma delete_in_middle:
  "k \<notin> fst ` set pre \<Longrightarrow> k \<notin> fst ` set rest \<Longrightarrow>
   AList.delete k (pre @ (k, c) # rest) = pre @ rest"
  by (induction pre) auto

lemma fold_heartbeatStep:
  assumes "distinct (map fst xs)" "fst ` set pre \<inter> fst ` set xs = {}"
  shows "fold heartbeatStep xs (pre @ xs, acts) =
     (pre @ map (\<lambda>(u, c). (u, c\<lparr>isAlive := Some False\<rparr>)) (filter (\<lambda>(u, c). isAlive c = Some True) xs),
      acts @ map (\<lambda>(u, c). if isAlive c = Some True then Ping (wsId c) else Terminate (wsId c)) xs)"
  using assms
proof (induction xs arbitrary: pre acts)
  case Nil
  then show ?case by simp
next
  case (Cons x xs)
  obtain k c where x: "x = (k, c)" by (cases x)
  have kpre: "k \<notin> fst ` set pre" using Cons.prems(2) x by auto
  have kxs: "k \<notin> fst ` set xs" using Cons.prems(1) x by auto
  have dxs: "distinct (map fst xs)" using Cons.prems(1) by simp
  show ?case
  proof (cases "isAlive c = Some True")
    case True
    have step: "heartbeatStep x (pre @ x # xs, acts) =
        ((pre @ [(k, c\<lparr>isAlive := Some False\<rparr>)]) @ xs, acts @ [Ping (wsId c)])"
      using True kpre by (simp add: heartbeatStep_def x update_in_middle)
    have disj: "fst ` set (pre @ [(k, c\<lparr>isAlive := Some False\<rparr>)]) \<inter> fst ` set xs = {}"
      using Cons.prems(2) kxs x by auto
    show ?thesis
      using Cons.IH[OF dxs disj, of "acts @ [Ping (wsId c)]"] step True x by simp
  next
    case False
    have step: "heartbeatStep x (pre @ x # xs, acts) = (pre @ xs, acts @ [Terminate (wsId c)])"
      using False kpre kxs by (simp add: heartbeatStep_def x delete_in_middle)
    have disj: "fst ` set pre \<inter> fst ` set xs = {}" using Cons.prems(2) by auto
    show ?thesis
      using Cons.IH[OF dxs disj, of "acts @ [Terminate (wsId c)]"] step False x by simp
  qed
qed

lemma heartbeat_eq:
  assumes "distinct (map fst cs)"
  shows "heartbeat (cs, acts) =
     (map (\<lambda>(u, c). (u, c\<lparr>isAlive := Some False\<rparr>)) (filter (\<lambda>(u, c). isAlive c = Some True) cs),
      acts @ map (\<lambda>(u, c). if isAlive c = Some True then Ping (wsId c) else Terminate (wsId c)) cs)"
  using fold_heartbeatStep[OF assms, of "[]" acts] by (simp add: heartbeat_def)

lemma map_of_swept:
  "distinct (map fst cs) \<Longrightarrow>
   map_of (map (\<lambda>(u, c). (u, c\<lparr>isAlive := Some False\<rparr>)) (filter (\<lambda>(u, c). isAlive c = Some True) cs)) u =
     (case map_of cs u of
        None \<Rightarrow> None
      | Some c \<Rightarrow> if isAlive c = Some True then Some (c\<lparr>isAlive := Some False\<rparr>) else None)"
proof (induction cs)
  case Nil
  then show ?case by simp
next
  case (Cons a cs)
  obtain k c where a: "a = (k, c)" by (cases a)
  have nk: "map_of cs k = None" using Cons.prems a by (simp add: map_of_eq_None_iff)
  show ?case using Cons a nk by (auto split: option.splits)
qed

lemma distinct_swept:
  "distinct (map fst cs) \<Longrightarrow>
   distinct (map fst (map (\<lambda>(u, c). (u, c\<lparr>isAlive := Some False\<rparr>)) (filter (\<lambda>(u, c). isAlive c = Some True) cs)))"
  by (induction cs) (auto simp: image_iff)

lemma map_of_onPong:
  "map_of (onPong w cs) u =
     map_option (\<lambda>c. if wsId c = w then c\<lparr>isAlive := Some True\<rparr> else c) (map_of cs u)"
  using map_of_map[of "\<lambda>c. if wsId c = w then c\<lparr>isAlive := Some True\<rparr> else c" cs]
  by (simp add: onPong_def)

lemma keys_onPong: "map fst (onPong w cs) = map fst cs"
  by (induction cs) (auto simp: onPong_def)


lemma emails_onPong:
  "(\<lambda>(u, c). (u, ws_email c)) ` set (onPong w cs) = (\<lambda>(u, c). (u, ws_email c)) ` set cs"
proof -
  have "map (\<lambda>(u, c). (u, ws_email c)) (onPong w cs) = map (\<lambda>(u, c). (u, ws_email c)) cs"
    by (induction cs) (simp_all add: onPong_def split: prod.splits)
  then have "set (map (\<lambda>(u, c). (u, ws_email c)) (onPong w cs)) = set (map (\<lambda>(u, c). (u, ws_email c)) cs)"
    by simp
  then show ?thesis by (simp only: set_map)
qed

lemma emails_swept:
  "(\<lambda>(u, c). (u, ws_email c)) `
      set (map (\<lambda>(u, c). (u, c\<lparr>isAlive := Some False\<rparr>)) (filter (\<lambda>(u, c). isAlive c = Some True) cs))
   \<subseteq> (\<lambda>(u, c). (u, ws_email c)) ` set cs"
  by (induction cs) (auto simp: image_iff)

text \<open>What one event does to the registry, to the actions, and to the entry of one user.\<close>

lemma wsStep_distinct:
  assumes "distinct (map fst cs)"
  shows "distinct (map fst (fst (wsStep nowIso ev (cs, acts))))"
proof (cases ev)
  case Heartbeat
  then show ?thesis using assms by (simp add: heartbeat_eq distinct_swept del: map_map)
next
  case (Pong w)
  then show ?thesis using assms by (simp add: keys_onPong)
next
  case (Notify e d)
  then show ?thesis using assms by simp
qed

lemma wsStep_emails:
  assumes "distinct (map fst cs)"
  shows "(\<lambda>(u, c). (u, ws_email c)) ` set (fst (wsStep nowIso ev (cs, acts)))
         \<subseteq> (\<lambda>(u, c). (u, ws_email c)) ` set cs"
proof (cases ev)
  case Heartbeat
  then show ?thesis using assms emails_swept[of cs] by (simp add: heartbeat_eq)
next
  case (Pong w)
  then show ?thesis by (simp add: emails_onPong)
next
  case (Notify e d)
  then show ?thesis by simp
qed

lemma wsStep_actions_grow:
  assumes "distinct (map fst cs)" "a \<in> set acts"
  shows "a \<in> set (snd (wsStep nowIso ev (cs, acts)))"
  using assms by (cases ev) (simp_all add: heartbeat_eq)

lemma wsStep_absent:
  assumes "distinct (map fst cs)" "map_of cs u = None"
  shows "map_of (fst (wsStep nowIso ev (cs, acts))) u = None"
  using assms by (cases ev) (simp_all add: heartbeat_eq map_of_swept map_of_onPong)

lemma heartbeat_terminates:
  assumes "distinct (map fst cs)" "map_of cs u = Some c" "isAlive c \<noteq> Some True"
  shows "map_of (fst (heartbeat (cs, acts))) u = None
       \<and> Terminate (wsId c) \<in> set (snd (heartbeat (cs, acts)))"
proof -
  have "(u, c) \<in> set cs" using assms(2) by (rule map_of_SomeD)
  then have "Terminate (wsId c) \<in>
      set (map (\<lambda>(u, c). if isAlive c = Some True then Ping (wsId c) else Terminate (wsId c)) cs)"
    using assms(3) by (force simp: image_iff)
  then show ?thesis using assms by (simp add: heartbeat_eq map_of_swept)
qed

lemma heartbeat_pings:
  assumes "distinct (map fst cs)" "map_of cs u = Some c" "isAlive c = Some True"
  shows "map_of (fst (heartbeat (cs, acts))) u = Some (c\<lparr>isAlive := Some False\<rparr>)
       \<and> Ping (wsId c) \<in> set (snd (heartbeat (cs, acts)))"
proof -
  have "(u, c) \<in> set cs" using assms(2) by (rule map_of_SomeD)
  then have "Ping (wsId c) \<in>
      set (map (\<lambda>(u, c). if isAlive c = Some True then Ping (wsId c) else Terminate (wsId c)) cs)"
    using assms(3) by (force simp: image_iff)
  then show ?thesis using assms by (simp add: heartbeat_eq map_of_swept)
qed

text \<open>Runs. A removed connection stays removed, and its termination stays on record.\<close>

lemma wsRun_Cons: "wsRun nowIso (ev # evs) st = wsRun nowIso evs (wsStep nowIso ev st)"
  by (simp add: wsRun_def)

lemma wsRun_distinct:
  "distinct (map fst cs) \<Longrightarrow> distinct (map fst (fst (wsRun nowIso evs (cs, acts))))"
proof (induction evs arbitrary: cs acts)
  case Nil
  then show ?case by (simp add: wsRun_def)
next
  case (Cons ev evs)
  obtain cs1 acts1 where st1: "wsStep nowIso ev (cs, acts) = (cs1, acts1)" by (cases "wsStep nowIso ev (cs, acts)")
  have "distinct (map fst cs1)" using wsStep_distinct[OF Cons.prems, of nowIso ev acts] st1 by simp
  then show ?case using Cons.IH[of cs1 acts1] st1 by (simp add: wsRun_Cons)
qed

lemma wsRun_emails:
  "distinct (map fst cs) \<Longrightarrow>
   (\<lambda>(u, c). (u, ws_email c)) ` set (fst (wsRun nowIso evs (cs, acts)))
     \<subseteq> (\<lambda>(u, c). (u, ws_email c)) ` set cs"
proof (induction evs arbitrary: cs acts)
  case Nil
  then show ?case by (simp add: wsRun_def)
next
  case (Cons ev evs)
  obtain cs1 acts1 where st1: "wsStep nowIso ev (cs, acts) = (cs1, acts1)" by (cases "wsStep nowIso ev (cs, acts)")
  have d1: "distinct (map fst cs1)" using wsStep_distinct[OF Cons.prems, of nowIso ev acts] st1 by simp
  have e1: "(\<lambda>(u, c). (u, ws_email c)) ` set cs1 \<subseteq> (\<lambda>(u, c). (u, ws_email c)) ` set cs"
    using wsStep_emails[OF Cons.prems, of nowIso ev acts] st1 by simp
  have "(\<lambda>(u, c). (u, ws_email c)) ` set (fst (wsRun nowIso evs (cs1, acts1)))
          \<subseteq> (\<lambda>(u, c). (u, ws_email c)) ` set cs1"
    by (rule Cons.IH[OF d1])
  then show ?case using e1 st1 by (simp add: wsRun_Cons)
qed

lemma wsRun_removed:
  "distinct (map fst cs) \<Longrightarrow> map_of cs u = None \<Longrightarrow> Terminate w \<in> set acts \<Longrightarrow>
   map_of (fst (wsRun nowIso evs (cs, acts))) u = None
   \<and> Terminate w \<in> set (snd (wsRun nowIso evs (cs, acts)))"
proof (induction evs arbitrary: cs acts)
  case Nil
  then show ?case by (simp add: wsRun_def)
next
  case (Cons ev evs)
  obtain cs1 acts1 where st1: "wsStep nowIso ev (cs, acts) = (cs1, acts1)" by (cases "wsStep nowIso ev (cs, acts)")
  have d1: "distinct (map fst cs1)" using wsStep_distinct[OF Cons.prems(1), of nowIso ev acts] st1 by simp
  have a1: "map_of cs1 u = None" using wsStep_absent[OF Cons.prems(1,2), of nowIso ev acts] st1 by simp
  have t1: "Terminate w \<in> set acts1"
    using wsStep_actions_grow[OF Cons.prems(1,3), of nowIso ev] st1 by simp
  show ?case using Cons.IH[OF d1 a1 t1] st1 by (simp add: wsRun_Cons)
qed

text \<open>A pinged connection that does not answer is gone after the next sweep.\<close>

lemma wsRun_pinged:
  "distinct (map fst cs) \<Longrightarrow> map_of cs u = Some c \<Longrightarrow> isAlive c \<noteq> Some True \<Longrightarrow>
   Pong (wsId c) \<notin> set evs \<Longrightarrow> Heartbeat \<in> set evs \<Longrightarrow>
   map_of (fst (wsRun nowIso evs (cs, acts))) u = None
   \<and> Terminate (wsId c) \<in> set (snd (wsRun nowIso evs (cs, acts)))"
proof (induction evs arbitrary: cs acts)
  case Nil
  then show ?case by simp
next
  case (Cons ev evs)
  obtain cs1 acts1 where st1: "wsStep nowIso ev (cs, acts) = (cs1, acts1)" by (cases "wsStep nowIso ev (cs, acts)")
  have d1: "distinct (map fst cs1)" using wsStep_distinct[OF Cons.prems(1), of nowIso ev acts] st1 by simp
  show ?case
  proof (cases ev)
    case Heartbeat
    have "map_of cs1 u = None \<and> Terminate (wsId c) \<in> set acts1"
      using heartbeat_terminates[OF Cons.prems(1,2,3), of acts] st1 Heartbeat by simp
    then show ?thesis using wsRun_removed[OF d1, of u "wsId c" acts1 nowIso evs] st1
      by (simp add: wsRun_Cons)
  next
    case (Pong w)
    then have ne: "w \<noteq> wsId c" using Cons.prems(4) by auto
    have m1: "map_of cs1 u = Some c" using st1 Pong ne Cons.prems(2) by (auto simp: map_of_onPong)
    have more: "Pong (wsId c) \<notin> set evs" "Heartbeat \<in> set evs" using Cons.prems(4,5) Pong by auto
    show ?thesis using Cons.IH[OF d1 m1 Cons.prems(3) more] st1 by (simp add: wsRun_Cons)
  next
    case (Notify e d)
    have m1: "map_of cs1 u = Some c" using st1 Notify Cons.prems(2) by auto
    have more: "Pong (wsId c) \<notin> set evs" "Heartbeat \<in> set evs" using Cons.prems(4,5) Notify by auto
    show ?thesis using Cons.IH[OF d1 m1 Cons.prems(3) more] st1 by (simp add: wsRun_Cons)
  qed
qed

text \<open>A registered connection that never answers is gone after the second sweep.\<close>

lemma wsRun_silent:
  "distinct (map fst cs) \<Longrightarrow> map_of cs u = Some c \<Longrightarrow>
   Pong (wsId c) \<notin> set evs \<Longrightarrow> count_list evs Heartbeat \<ge> 2 \<Longrightarrow>
   map_of (fst (wsRun nowIso evs (cs, acts))) u = None
   \<and> Terminate (wsId c) \<in> set (snd (wsRun nowIso evs (cs, acts)))"
proof (induction evs arbitrary: cs acts)
  case Nil
  then show ?case by simp
next
  case (Cons ev evs)
  obtain cs1 acts1 where st1: "wsStep nowIso ev (cs, acts) = (cs1, acts1)" by (cases "wsStep nowIso ev (cs, acts)")
  have d1: "distinct (map fst cs1)" using wsStep_distinct[OF Cons.prems(1), of nowIso ev acts] st1 by simp
  have nopong: "Pong (wsId c) \<notin> set evs" using Cons.prems(3) by simp
  show ?case
  proof (cases ev)
    case Heartbeat
    then have one: "Heartbeat \<in> set evs"
      using Cons.prems(4) by (cases "Heartbeat \<in> set evs") simp_all
    show ?thesis
    proof (cases "isAlive c = Some True")
      case True
      have m1: "map_of cs1 u = Some (c\<lparr>isAlive := Some False\<rparr>)"
        using heartbeat_pings[OF Cons.prems(1,2) True, of acts] st1 Heartbeat by simp
      show ?thesis
        using wsRun_pinged[OF d1 m1, of evs nowIso acts1] nopong one st1 by (simp add: wsRun_Cons)
    next
      case False
      have "map_of cs1 u = None \<and> Terminate (wsId c) \<in> set acts1"
        using heartbeat_terminates[OF Cons.prems(1,2) False, of acts] st1 Heartbeat by simp
      then show ?thesis using wsRun_removed[OF d1, of u "wsId c" acts1 nowIso evs] st1
        by (simp add: wsRun_Cons)
    qed
  next
    case (Pong w)
    then have ne: "w \<noteq> wsId c" using Cons.prems(3) by auto
    have m1: "map_of cs1 u = Some c" using st1 Pong ne Cons.prems(2) by (auto simp: map_of_onPong)
    have cnt: "count_list evs Heartbeat \<ge> 2" using Cons.prems(4) Pong by simp
    show ?thesis using Cons.IH[OF d1 m1 nopong cnt] st1 by (simp add: wsRun_Cons)
  next
    case (Notify e d)
    have m1: "map_of cs1 u = Some c" using st1 Notify Cons.prems(2) by auto
    have cnt: "count_list evs Heartbeat \<ge> 2" using Cons.prems(4) Notify by simp
    show ?thesis using Cons.IH[OF d1 m1 nopong cnt] st1 by (simp add: wsRun_Cons)
  qed
qed

lemma notifyNewMessage_absent:
  assumes "\<forall>(u, c) \<in> set cs. ws_email c \<noteq> Some e"
  shows "notifyNewMessage nowIso cs e d = []"
proof -
  have "find (\<lambda>client. ws_email client = Some e) (map snd cs) = None"
    using assms by (auto simp: find_None_iff)
  then show ?thesis by (simp add: notifyNewMessage_def)
qed


text \<open>
  C10. Take a registry (one socket per user identifier) in which a connection is
  registered, and any run of timer ticks, pongs and notifications in which that
  connection's socket never sends a pong and the timer ticks at least twice. At the end
  the connection has been terminated and is no longer in the registry, and a
  \<^verbatim>\<open>notifyNewMessage\<close> addressed to its identity sends nothing (no other registered
  connection carries its address). And at any one sweep, every connection marked alive
  is pinged and stays registered with its liveness flag cleared.
\<close>

theorem heartbeat_removes_silent_connection:
  assumes reg: "distinct (map fst cs)" "map_of cs u = Some c"
    and addr: "ws_email c = Some e" "\<forall>(u', c') \<in> set cs. ws_email c' = Some e \<longrightarrow> u' = u"
    and silent: "Pong (wsId c) \<notin> set evs" "count_list evs Heartbeat \<ge> 2"
  shows "map_of (fst (wsRun nowIso evs (cs, acts))) u = None
       \<and> Terminate (wsId c) \<in> set (snd (wsRun nowIso evs (cs, acts)))
       \<and> notifyNewMessage nowIso (fst (wsRun nowIso evs (cs, acts))) e d = []
       \<and> (\<forall>(u', c') \<in> set cs. isAlive c' = Some True \<longrightarrow>
             Ping (wsId c') \<in> set (snd (heartbeat (cs, acts)))
             \<and> map_of (fst (heartbeat (cs, acts))) u' = Some (c'\<lparr>isAlive := Some False\<rparr>))"
proof -
  define cs' where "cs' = fst (wsRun nowIso evs (cs, acts))"
  have gone: "map_of cs' u = None \<and> Terminate (wsId c) \<in> set (snd (wsRun nowIso evs (cs, acts)))"
    unfolding cs'_def using reg silent by (rule wsRun_silent)
  have sub: "(\<lambda>(u, c). (u, ws_email c)) ` set cs' \<subseteq> (\<lambda>(u, c). (u, ws_email c)) ` set cs"
    unfolding cs'_def using reg(1) by (rule wsRun_emails)
  have none: "\<forall>(u', c') \<in> set cs'. ws_email c' \<noteq> Some e"
  proof (clarify)
    fix u' c' assume in': "(u', c') \<in> set cs'" and em: "ws_email c' = Some e"
    have "(u', Some e) \<in> (\<lambda>(u, c). (u, ws_email c)) ` set cs'"
      using in' em by (force simp: image_iff)
    then have "(u', Some e) \<in> (\<lambda>(u, c). (u, ws_email c)) ` set cs" using sub by blast
    then obtain c0 where "(u', c0) \<in> set cs" "ws_email c0 = Some e" by auto
    then have "u' = u" using addr(2) by blast
    then have "u \<in> fst ` set cs'" using in' by (force simp: image_iff)
    then show False using gone by (simp add: map_of_eq_None_iff)
  qed
  have quiet: "notifyNewMessage nowIso cs' e d = []"
    using none by (rule notifyNewMessage_absent)
  have sweep: "\<forall>(u', c') \<in> set cs. isAlive c' = Some True \<longrightarrow>
             Ping (wsId c') \<in> set (snd (heartbeat (cs, acts)))
             \<and> map_of (fst (heartbeat (cs, acts))) u' = Some (c'\<lparr>isAlive := Some False\<rparr>)"
  proof (clarify)
    fix u' c' assume in0: "(u', c') \<in> set cs" and alive: "isAlive c' = Some True"
    have "map_of cs u' = Some c'" using reg(1) in0 by simp
    then show "Ping (wsId c') \<in> set (snd (heartbeat (cs, acts)))
             \<and> map_of (fst (heartbeat (cs, acts))) u' = Some (c'\<lparr>isAlive := Some False\<rparr>)"
      using heartbeat_pings[OF reg(1) _ alive, of u' acts] by simp
  qed
  show ?thesis using gone quiet sweep unfolding cs'_def by simp
qed

lemma exampleClients_distinct: "distinct (map fst exampleClients)"
  by (simp add: exampleClients_def)

lemma exampleClients_alice: "map_of exampleClients ''u1'' = Some exampleAliceSocket"
  by (simp add: exampleClients_def)

lemma exampleClients_address:
  "\<forall>(u', c') \<in> set exampleClients. ws_email c' = Some ''alice@example.com'' \<longrightarrow> u' = ''u1''"
  by (simp add: exampleClients_def exampleAliceSocket_def exampleBobSocket_def)

lemma exampleEvents_silent:
  "Pong (wsId exampleAliceSocket) \<notin> set exampleEvents" "count_list exampleEvents Heartbeat \<ge> 2"
  by (simp_all add: exampleEvents_def exampleAliceSocket_def)

lemma exampleRun:
  "wsRun nowIso exampleEvents (exampleClients, []) =
     ([(''u2'', exampleBobSocket\<lparr>isAlive := Some False\<rparr>)],
      [Ping 1, Ping 2,
       Send 2 \<lparr>f_type = ''message'', f_data = ''hello'', f_timestamp = nowIso\<rparr>,
       Terminate 1, Ping 2])"
  by (simp add: wsRun_def exampleEvents_def exampleClients_def heartbeat_def heartbeatStep_def
      onPong_def notifyNewMessage_def sendMessage_def exampleAliceSocket_def exampleBobSocket_def)

text \<open>
  Alice and Bob are connected; only Bob's socket answers the ping. After the second
  sweep Alice's socket has been terminated and only Bob is registered; a notification
  to Alice sends nothing.
\<close>

theorem heartbeat_removes_silent_connection_witness:
  "distinct (map fst exampleClients) \<and>
   map_of exampleClients ''u1'' = Some exampleAliceSocket \<and>
   Pong (wsId exampleAliceSocket) \<notin> set exampleEvents \<and>
   count_list exampleEvents Heartbeat \<ge> 2 \<and>
   map_of (fst (wsRun ''t'' exampleEvents (exampleClients, []))) ''u1'' = None \<and>
   Terminate 1 \<in> set (snd (wsRun ''t'' exampleEvents (exampleClients, []))) \<and>
   notifyNewMessage ''t'' (fst (wsRun ''t'' exampleEvents (exampleClients, [])))
      ''alice@example.com'' ''hello'' = [] \<and>
   map fst (fst (wsRun ''t'' exampleEvents (exampleClients, []))) = [''u2''] \<and>
   Ping 1 \<in> set (snd (heartbeat (exampleClients, [])))"
proof -
  have em: "ws_email exampleAliceSocket = Some ''alice@example.com''"
    by (simp add: exampleAliceSocket_def)
  note inst = heartbeat_removes_silent_connection
    [OF exampleClients_distinct exampleClients_alice em exampleClients_address exampleEvents_silent,
     of "''t''" "[]" "''hello''"]
  have alive: "(''u1'', exampleAliceSocket) \<in> set exampleClients \<and> isAlive exampleAliceSocket = Some True"
    by (simp add: exampleClients_def exampleAliceSocket_def)
  have ping: "Ping (wsId exampleAliceSocket) \<in> set (snd (heartbeat (exampleClients, [])))"
    using inst alive by blast
  have id1: "wsId exampleAliceSocket = 1" by (simp add: exampleAliceSocket_def)
  show ?thesis
    using inst ping exampleClients_distinct exampleClients_alice exampleEvents_silent
    by (simp add: id1 exampleRun)
qed

end
